(* ===== verification/Prelude.thy ===== *)
theory Prelude
  imports Main "HOL-Library.Word"
begin

text \<open>
  Vocabulary shared by every component: the exceptions the code throws, the
  undefined behaviours it can run into, the result type of a fallible
  operation with its sequencing combinator, and the byte iterators
  (a container together with a position in it) through which all
  serialisation reads and writes.
\<close>

section \<open>Named collections\<close>

named_theorems iter_simps \<open>how byte iterators read and write\<close>
named_theorems wire_simps \<open>the bytes a message has on the wire and their number\<close>
named_theorems handler_defs \<open>definitions of the asynchronous handlers\<close>

section \<open>Exceptions, undefined behaviour, results\<close>

text \<open>
  The hierarchy of \<open>include/msglayer.hpp\<close>: \<open>InvalidHeaderError\<close> and
  \<open>UndersizedPacketError\<close> derive from \<open>MsgLayerError\<close>, which derives from
  \<open>std::runtime_error\<close>.  \<open>LengthError\<close> is the \<open>std::length_error\<close> of
  the constructor \<open>std::vector(n)\<close>, \<open>SystemError\<close> the
  \<open>boost::system::system_error\<close> of Boost.Asio with its text; both are a
  \<open>std::exception\<close> but not a \<open>MsgLayerError\<close>.
\<close>

datatype exn =
    MsgLayerError string
  | InvalidHeaderError
  | UndersizedPacketError
  | LengthError
  | SystemError string

fun exn_what :: "exn \<Rightarrow> string" where
  "exn_what (MsgLayerError str) = str"
| "exn_what InvalidHeaderError = ''Invalid packet header''"
| "exn_what UndersizedPacketError = ''Packet too small''"
| "exn_what LengthError = ''cannot create std::vector larger than max_size()''"
| "exn_what (SystemError str) = str"

text \<open>Which \<open>catch\<close> clauses of the code match which exception.\<close>

fun caught_as_MsgLayerError :: "exn \<Rightarrow> bool" where
  "caught_as_MsgLayerError LengthError = False"
| "caught_as_MsgLayerError (SystemError _) = False"
| "caught_as_MsgLayerError _ = True"

fun caught_as_InvalidHeaderError :: "exn \<Rightarrow> bool" where
  "caught_as_InvalidHeaderError InvalidHeaderError = True"
| "caught_as_InvalidHeaderError _ = False"

text \<open>
  Undefined behaviour is a value of the model, so that its absence is a
  theorem: dereferencing or writing outside a container, using a destroyed
  object, overflowing a signed integer.
\<close>

datatype ub =
    ReadOutOfBounds
  | WriteOutOfBounds
  | UseAfterFree
  | SignedOverflow

datatype failure = Throw exn | Undefined ub

type_synonym 'a result = "failure + 'a"

definition rbind :: "'a result \<Rightarrow> ('a \<Rightarrow> 'b result) \<Rightarrow> 'b result" where
  "rbind r f = (case r of Inl e \<Rightarrow> Inl e | Inr x \<Rightarrow> f x)"

lemma rbind_simps [simp]:
  "rbind (Inl e) f = Inl e"
  "rbind (Inr x) f = f x"
  by (simp_all add: rbind_def)

lemma rbind_assoc [simp]: "rbind (rbind r f) g = rbind r (\<lambda>x. rbind (f x) g)"
  by (cases r) simp_all

lemma rbind_Inr_right [simp]: "rbind r Inr = r"
  by (cases r) simp_all

lemma rbind_eq_Inr_iff: "rbind r f = Inr y \<longleftrightarrow> (\<exists>x. r = Inr x \<and> f x = Inr y)"
  by (cases r) simp_all

lemma rbind_eq_Inl_iff:
  "rbind r f = Inl e \<longleftrightarrow> r = Inl e \<or> (\<exists>x. r = Inr x \<and> f x = Inl e)"
  by (cases r) simp_all

lemma rbind_cong [fundef_cong]:
  "r = r' \<Longrightarrow> (\<And>x. r' = Inr x \<Longrightarrow> f x = g x) \<Longrightarrow> rbind r f = rbind r' g"
  by (cases r') simp_all

section \<open>Error codes\<close>

text \<open>
  \<open>boost::system::error_code\<close>: no error, \<open>operation_aborted\<close> (the one value the
  code compares with), or some other one.  The text of a code
  (\<open>error_code::message\<close>) is a function \<open>em\<close> given to the handlers that use it.
\<close>

datatype error_code = Success | OperationAborted | OtherError nat

section \<open>Bytes and byte iterators\<close>

text \<open>
  \<open>byte_traits::byte_t\<close>.  An iterator into a byte sequence is the sequence
  with a position.  Reading or writing at a position outside the sequence is
  undefined behaviour in C++ and a value \<open>Undefined _\<close> here.
\<close>

type_synonym byte = "8 word"
type_synonym iter = "byte list \<times> nat"

definition put_byte :: "byte \<Rightarrow> iter \<Rightarrow> iter result" where
  "put_byte b it =
     (case it of (buf, pos) \<Rightarrow>
        if pos < length buf then Inr (buf[pos := b], Suc pos)
        else Inl (Undefined WriteOutOfBounds))"

fun put_bytes :: "byte list \<Rightarrow> iter \<Rightarrow> iter result" where
  "put_bytes [] it = Inr it"
| "put_bytes (b # bs) it = rbind (put_byte b it) (put_bytes bs)"

definition get_byte :: "iter \<Rightarrow> (byte \<times> iter) result" where
  "get_byte it =
     (case it of (buf, pos) \<Rightarrow>
        if pos < length buf then Inr (buf ! pos, (buf, Suc pos))
        else Inl (Undefined ReadOutOfBounds))"

fun get_bytes :: "nat \<Rightarrow> iter \<Rightarrow> (byte list \<times> iter) result" where
  "get_bytes 0 it = Inr ([], it)"
| "get_bytes (Suc n) it =
     rbind (get_byte it) (\<lambda>(b, it'). rbind (get_bytes n it') (\<lambda>(bs, it''). Inr (b # bs, it'')))"

lemma put_bytes_append [iter_simps]:
  "put_bytes (xs @ ys) it = rbind (put_bytes xs it) (put_bytes ys)"
  by (induction xs arbitrary: it) (simp_all cong: rbind_cong)

lemma put_bytes_single: "put_bytes [b] it = put_byte b it"
  by (cases "put_byte b it") simp_all

text \<open>A write that fits replaces exactly the bytes it covers and advances past them.\<close>

lemma put_bytes_fits:
  "pos + length bs \<le> length buf \<Longrightarrow>
   put_bytes bs (buf, pos) = Inr (take pos buf @ bs @ drop (pos + length bs) buf, pos + length bs)"
proof (induction bs arbitrary: buf pos)
  case Nil
  then show ?case by simp
next
  case (Cons b bs)
  then have lt: "pos < length buf" by simp
  have "take (Suc pos) (buf[pos := b]) = take pos buf @ [b]"
    using lt by (simp add: take_Suc_conv_app_nth)
  with Cons lt show ?case
    by (simp add: put_byte_def)
qed

lemma put_bytes_overflow:
  "pos \<le> length buf \<Longrightarrow> length buf < pos + length bs \<Longrightarrow>
   put_bytes bs (buf, pos) = Inl (Undefined WriteOutOfBounds)"
proof (induction bs arbitrary: buf pos)
  case Nil
  then show ?case by simp
next
  case (Cons b bs)
  then show ?case by (cases "pos < length buf") (simp_all add: put_byte_def)
qed

lemma put_bytes_result:
  "pos \<le> length buf \<Longrightarrow>
   put_bytes bs (buf, pos) =
     (if pos + length bs \<le> length buf
      then Inr (take pos buf @ bs @ drop (pos + length bs) buf, pos + length bs)
      else Inl (Undefined WriteOutOfBounds))"
  by (simp add: put_bytes_fits put_bytes_overflow)

lemma get_bytes_fits:
  "pos + n \<le> length buf \<Longrightarrow> get_bytes n (buf, pos) = Inr (take n (drop pos buf), (buf, pos + n))"
proof (induction n arbitrary: pos)
  case 0
  then show ?case by simp
next
  case (Suc n)
  then have "pos < length buf" by simp
  with Suc show ?case
    by (simp add: get_byte_def Cons_nth_drop_Suc [symmetric])
qed

lemma get_bytes_overflow:
  "pos \<le> length buf \<Longrightarrow> length buf < pos + n \<Longrightarrow>
   get_bytes n (buf, pos) = Inl (Undefined ReadOutOfBounds)"
proof (induction n arbitrary: pos)
  case 0
  then show ?case by simp
next
  case (Suc n)
  then show ?case by (cases "pos < length buf") (simp_all add: get_byte_def)
qed

lemma get_bytes_length:
  "get_bytes n it = Inr (bs, it') \<Longrightarrow> length bs = n \<and> fst it' = fst it \<and> snd it' = snd it + n"
proof (induction n arbitrary: it bs it')
  case 0
  then show ?case by simp
next
  case (Suc n)
  then obtain b it1 bs1 where get: "get_byte it = Inr (b, it1)"
      and rest: "get_bytes n it1 = Inr (bs1, it')" and bs: "bs = b # bs1"
    by (auto simp: rbind_eq_Inr_iff)
  from Suc.IH [OF rest] get bs show ?case
    by (auto simp: get_byte_def split: prod.splits if_splits)
qed

section \<open>The vector constructor\<close>

text \<open>
  \<open>std::make_shared<byte_sequence>(n)\<close>: \<open>n\<close> zero bytes, or
  \<open>std::length_error\<close> when \<open>n\<close> exceeds \<open>max_size()\<close>, which for a vector of
  bytes on a 64 bit system is the largest pointer difference.  A
  \<open>size_t\<close> is a natural number below \<open>2 ^ 64\<close>; where the code's arithmetic
  on it can wrap, the model computes in \<open>64 word\<close> and reads the result back.
\<close>

definition vector_max_size :: nat where
  "vector_max_size = 2 ^ 63 - 1"

definition vector_ctor :: "nat \<Rightarrow> byte list result" where
  "vector_ctor n = (if n \<le> vector_max_size then Inr (replicate n 0) else Inl (Throw LengthError))"

lemma vector_ctor_small: "n \<le> vector_max_size \<Longrightarrow> vector_ctor n = Inr (replicate n 0)"
  by (simp add: vector_ctor_def)

text \<open>Filling a fresh vector of exactly the right size yields the bytes written.\<close>

lemma put_bytes_fresh: "length bs = n \<Longrightarrow> put_bytes bs (replicate n 0, 0) = Inr (bs, n)"
  by (simp add: put_bytes_fits)

end
