(* ===== verification/Bytes.thy ===== *)
theory Bytes
  imports Prelude
begin

text \<open>
  \<open>include/bytes.hpp\<close>: the byte order conversions and the raw reads and writes
  of plain values.  The byte order of the machine the program runs on is a
  parameter (\<open>host\<close>) of everything that looks at the bytes of an object; the
  build defines \<open>NUKE_MS_BIG_ENDIAN\<close> exactly on big endian hosts
  (\<open>src/CMakeLists.txt\<close>), so the same parameter selects the branch of the
  \<open>#ifdef\<close>.  The main results: the hand-written specialisations of
  \<open>reversebytes\<close> agree with the generic template, the conversions are
  inverse to each other, and a converted value has the same bytes, least
  significant first, on every host.
\<close>

unbundle bit_operations_syntax

section \<open>Types\<close>

type_synonym uint2b = "16 word"
type_synonym uint4b = "32 word"
type_synonym uint8b = "64 word"

datatype endianness = LittleEndian | BigEndian

section \<open>The bytes of an object\<close>

fun le_bytes :: "nat \<Rightarrow> 'a::len word \<Rightarrow> byte list" where
  "le_bytes 0 x = []"
| "le_bytes (Suc n) x = ucast x # le_bytes n (drop_bit 8 x)"

fun word_of_le :: "byte list \<Rightarrow> 'a::len word" where
  "word_of_le [] = 0"
| "word_of_le (b # bs) = ucast b OR push_bit 8 (word_of_le bs)"

definition size_of :: "'a::len word \<Rightarrow> nat" where
  "size_of x = LENGTH('a) div 8"

definition object_bytes :: "endianness \<Rightarrow> 'a::len word \<Rightarrow> byte list" where
  "object_bytes host x =
     (case host of
        LittleEndian \<Rightarrow> le_bytes (size_of x) x
      | BigEndian \<Rightarrow> rev (le_bytes (size_of x) x))"

definition object_of_bytes :: "endianness \<Rightarrow> byte list \<Rightarrow> 'a::len word" where
  "object_of_bytes host bs =
     (case host of LittleEndian \<Rightarrow> word_of_le bs | BigEndian \<Rightarrow> word_of_le (rev bs))"

lemma length_le_bytes [simp]: "length (le_bytes n x) = n"
  by (induction n arbitrary: x) simp_all

lemma size_of_simps [simp]:
  "size_of (x :: byte) = 1"
  "size_of (y :: uint2b) = 2"
  "size_of (z :: uint4b) = 4"
  "size_of (w :: uint8b) = 8"
  by (simp_all add: size_of_def)

lemma length_object_bytes [simp]: "length (object_bytes host x) = size_of x"
  by (cases host) (simp_all add: object_bytes_def)

lemma bit_word_of_le_le_bytes:
  fixes x :: "'a::len word"
  assumes "k < LENGTH('a)"
  shows "bit (word_of_le (le_bytes n x) :: 'a word) k \<longleftrightarrow> k < 8 * n \<and> bit x k"
  using assms
proof (induction n arbitrary: x k)
  case 0
  then show ?case by simp
next
  case (Suc n)
  show ?case
  proof (cases "k < 8")
    case True
    with Suc.prems show ?thesis by (auto simp: bit_simps)
  next
    case False
    with Suc.prems have "k - 8 < LENGTH('a)" by simp
    from Suc.IH [OF this, of "drop_bit 8 x"] False Suc.prems show ?thesis
      by (auto simp: bit_simps)
  qed
qed

lemma word_of_le_le_bytes:
  fixes x :: "'a::len word"
  assumes "LENGTH('a) \<le> 8 * n"
  shows "word_of_le (le_bytes n x) = x"
proof (rule bit_word_eqI)
  fix k assume k: "k < LENGTH('a)"
  with assms have "k < 8 * n" by simp
  with bit_word_of_le_le_bytes [OF k, of n x]
  show "bit (word_of_le (le_bytes n x) :: 'a word) k \<longleftrightarrow> bit x k" by simp
qed

lemma bit_word_of_le_bound:
  "bit (word_of_le bs :: 'a::len word) k \<Longrightarrow> k < 8 * length bs"
proof (induction bs arbitrary: k)
  case Nil
  then show ?case by simp
next
  case (Cons b bs)
  show ?case
  proof (cases "k < 8")
    case False
    with Cons.prems have "bit (word_of_le bs :: 'a word) (k - 8)"
      by (auto simp: bit_simps dest: bit_imp_le_length)
    from Cons.IH [OF this] show ?thesis by simp
  qed simp
qed

lemma le_bytes_word_of_le:
  "8 * length bs \<le> LENGTH('a) \<Longrightarrow> le_bytes (length bs) (word_of_le bs :: 'a::len word) = bs"
proof (induction bs)
  case Nil
  then show ?case by simp
next
  case (Cons b bs)
  let ?w = "ucast b OR push_bit 8 (word_of_le bs) :: 'a word"
  have low: "ucast ?w = b"
    by (rule bit_word_eqI) (use Cons.prems in \<open>auto simp: bit_simps\<close>)
  have high: "drop_bit 8 ?w = word_of_le bs"
  proof (rule bit_word_eqI)
    fix k assume "k < LENGTH('a)"
    then show "bit (drop_bit 8 ?w) k \<longleftrightarrow> bit (word_of_le bs :: 'a word) k"
      using Cons.prems bit_word_of_le_bound [of bs k, where 'a = 'a]
      by (auto simp: bit_simps dest: bit_imp_le_length)
  qed
  from Cons have "le_bytes (length bs) (word_of_le bs :: 'a word) = bs" by simp
  with low high show ?case by simp
qed

text \<open>Reading back what is in memory gives the value, and the other way round.\<close>

lemma object_of_object_bytes:
  fixes x :: "'a::len word"
  assumes "8 dvd LENGTH('a)"
  shows "object_of_bytes host (object_bytes host x) = x"
  using assms by (cases host) (auto simp: object_of_bytes_def object_bytes_def size_of_def word_of_le_le_bytes)

lemma object_bytes_of_bytes:
  assumes "8 * length bs = LENGTH('a)"
  shows "object_bytes host (object_of_bytes host bs :: 'a::len word) = bs"
proof -
  have sz: "size_of x = length bs" for x :: "'a word"
    using assms by (auto simp: size_of_def)
  show ?thesis
  proof (cases host)
    case LittleEndian
    with assms show ?thesis
      by (simp add: object_of_bytes_def object_bytes_def sz le_bytes_word_of_le)
  next
    case BigEndian
    have "le_bytes (length (rev bs)) (word_of_le (rev bs) :: 'a word) = rev bs"
      by (rule le_bytes_word_of_le) (simp add: assms)
    with BigEndian show ?thesis
      by (simp add: object_of_bytes_def object_bytes_def sz)
  qed
qed

section \<open>reversebytes\<close>

text \<open>
  The generic template reverses the object representation in place.  The
  specialisations shift and mask; the 16 bit one computes in \<open>int\<close> (32 bits)
  because of the integer promotions and converts back on return.  The signed
  specialisations convert to the unsigned type of the same width and back,
  modulo \<open>2 ^ w\<close>.
\<close>

definition reversebytes :: "endianness \<Rightarrow> 'a::len word \<Rightarrow> 'a word" where
  "reversebytes host x = object_of_bytes host (rev (object_bytes host x))"

definition reversebytes_uint2b :: "uint2b \<Rightarrow> uint2b" where
  "reversebytes_uint2b x =
     ucast (push_bit 8 (ucast x :: 32 word) OR drop_bit 8 (ucast x :: 32 word))"

definition reversebytes_uint4b :: "uint4b \<Rightarrow> uint4b" where
  "reversebytes_uint4b x =
     push_bit 24 x OR (push_bit 8 x AND 0xff0000) OR (drop_bit 8 x AND 0xff00) OR drop_bit 24 x"

definition reversebytes_int2b :: "int \<Rightarrow> int" where
  "reversebytes_int2b x = sint (reversebytes_uint2b (word_of_int x))"

definition reversebytes_int4b :: "int \<Rightarrow> int" where
  "reversebytes_int4b x = sint (reversebytes_uint4b (word_of_int x))"

text \<open>The result does not depend on the byte order of the host.\<close>

lemma reversebytes_le: "reversebytes host x = word_of_le (rev (le_bytes (size_of x) x))"
  by (cases host) (simp_all add: reversebytes_def object_bytes_def object_of_bytes_def)

lemma le_bytes_unfold:
  "le_bytes 2 x = [ucast x, ucast (drop_bit 8 x)]"
  "le_bytes 4 y = [ucast y, ucast (drop_bit 8 y), ucast (drop_bit 16 y), ucast (drop_bit 24 y)]"
  by (simp_all add: numeral_eq_Suc)

lemma reversebytes_uint2b_generic: "reversebytes_uint2b x = reversebytes host x"
proof (rule bit_word_eqI)
  fix k assume "k < LENGTH(16)"
  then show "bit (reversebytes_uint2b x) k \<longleftrightarrow> bit (reversebytes host x) k"
    by (auto simp: reversebytes_uint2b_def reversebytes_le le_bytes_unfold bit_simps
        dest: bit_imp_le_length)
qed

lemma reversebytes_uint4b_generic: "reversebytes_uint4b x = reversebytes host x"
proof -
  have masks: "(0xff0000 :: uint4b) = push_bit 16 (mask 8)" "(0xff00 :: uint4b) = push_bit 8 (mask 8)"
    by (simp_all add: mask_eq_exp_minus_1)
  show ?thesis
  proof (rule bit_word_eqI)
    fix k assume "k < LENGTH(32)"
    then show "bit (reversebytes_uint4b x) k \<longleftrightarrow> bit (reversebytes host x) k"
      unfolding reversebytes_uint4b_def masks reversebytes_le size_of_simps le_bytes_unfold
      by (auto simp: bit_simps dest: bit_imp_le_length)
  qed
qed

lemma reversebytes_involution:
  fixes x :: "'a::len word"
  assumes "8 dvd LENGTH('a)"
  shows "reversebytes host (reversebytes host x) = x"
proof -
  have len: "8 * length (rev (object_bytes host x)) = LENGTH('a)"
    using assms by (simp add: size_of_def)
  show ?thesis
    using assms by (simp add: reversebytes_def object_bytes_of_bytes [OF len] object_of_object_bytes)
qed

lemma reversebytes_byte [simp]: "reversebytes host (x :: byte) = x"
  by (rule bit_word_eqI) (auto simp: reversebytes_le bit_simps dest: bit_imp_le_length)

section \<open>Conversion between host and network byte order\<close>

text \<open>
  The templates \<open>to_netbo<T>\<close> and \<open>to_hostbo<T>\<close> call the \<open>reversebytes<T>\<close> the
  overload resolution picks for \<open>T\<close>; the model passes that function.
\<close>

definition to_netbo :: "endianness \<Rightarrow> ('t \<Rightarrow> 't) \<Rightarrow> 't \<Rightarrow> 't" where
  "to_netbo host rev_bytes x = (case host of BigEndian \<Rightarrow> rev_bytes x | LittleEndian \<Rightarrow> x)"

definition to_hostbo :: "endianness \<Rightarrow> ('t \<Rightarrow> 't) \<Rightarrow> 't \<Rightarrow> 't" where
  "to_hostbo host rev_bytes x = (case host of BigEndian \<Rightarrow> rev_bytes x | LittleEndian \<Rightarrow> x)"

text \<open>The instances the code uses.\<close>

abbreviation netbo_byte :: "endianness \<Rightarrow> byte \<Rightarrow> byte" where
  "netbo_byte host \<equiv> to_netbo host (reversebytes host)"
abbreviation netbo_uint2b :: "endianness \<Rightarrow> uint2b \<Rightarrow> uint2b" where
  "netbo_uint2b host \<equiv> to_netbo host reversebytes_uint2b"
abbreviation netbo_uint4b :: "endianness \<Rightarrow> uint4b \<Rightarrow> uint4b" where
  "netbo_uint4b host \<equiv> to_netbo host reversebytes_uint4b"
abbreviation netbo_uint8b :: "endianness \<Rightarrow> uint8b \<Rightarrow> uint8b" where
  "netbo_uint8b host \<equiv> to_netbo host (reversebytes host)"
abbreviation hostbo_byte :: "endianness \<Rightarrow> byte \<Rightarrow> byte" where
  "hostbo_byte host \<equiv> to_hostbo host (reversebytes host)"
abbreviation hostbo_uint2b :: "endianness \<Rightarrow> uint2b \<Rightarrow> uint2b" where
  "hostbo_uint2b host \<equiv> to_hostbo host reversebytes_uint2b"
abbreviation hostbo_uint4b :: "endianness \<Rightarrow> uint4b \<Rightarrow> uint4b" where
  "hostbo_uint4b host \<equiv> to_hostbo host reversebytes_uint4b"
abbreviation hostbo_uint8b :: "endianness \<Rightarrow> uint8b \<Rightarrow> uint8b" where
  "hostbo_uint8b host \<equiv> to_hostbo host (reversebytes host)"

text \<open>Every instance is the conversion with the generic template.\<close>

lemma netbo_generic:
  "netbo_uint2b host = to_netbo host (reversebytes host)"
  "netbo_uint4b host = to_netbo host (reversebytes host)"
  "hostbo_uint2b host = to_hostbo host (reversebytes host)"
  "hostbo_uint4b host = to_hostbo host (reversebytes host)"
  by (simp_all add: fun_eq_iff to_netbo_def to_hostbo_def
      reversebytes_uint2b_generic [of _ host] reversebytes_uint4b_generic [of _ host]
      split: endianness.split)

lemma netbo_byte_id [simp]: "netbo_byte host b = b" "hostbo_byte host b = b"
  by (simp_all add: to_netbo_def to_hostbo_def split: endianness.split)

lemma object_bytes_to_netbo:
  fixes x :: "'a::len word"
  assumes "8 dvd LENGTH('a)"
  shows "object_bytes host (to_netbo host (reversebytes host) x) = le_bytes (size_of x) x"
proof (cases host)
  case LittleEndian
  then show ?thesis by (simp add: to_netbo_def object_bytes_def)
next
  case BigEndian
  have len: "8 * length (rev (object_bytes BigEndian x)) = LENGTH('a)"
    using assms by (simp add: size_of_def)
  from BigEndian show ?thesis
    by (simp add: to_netbo_def reversebytes_def object_bytes_of_bytes [OF len])
      (simp add: object_bytes_def)
qed

lemma to_hostbo_object_of_bytes:
  assumes "8 * length bs = LENGTH('a)"
  shows "to_hostbo host (reversebytes host) (object_of_bytes host bs :: 'a::len word) = word_of_le bs"
proof (cases host)
  case LittleEndian
  then show ?thesis by (simp add: to_hostbo_def object_of_bytes_def)
next
  case BigEndian
  with assms show ?thesis
    by (simp add: to_hostbo_def reversebytes_def object_bytes_of_bytes)
      (simp add: object_of_bytes_def)
qed

lemma wire_uint2b [wire_simps]: "object_bytes host (netbo_uint2b host x) = le_bytes 2 x"
  by (simp add: netbo_generic object_bytes_to_netbo)

lemma wire_uint4b [wire_simps]: "object_bytes host (netbo_uint4b host x) = le_bytes 4 x"
  by (simp add: netbo_generic object_bytes_to_netbo)

lemma wire_uint8b [wire_simps]: "object_bytes host (netbo_uint8b host x) = le_bytes 8 x"
  by (simp add: object_bytes_to_netbo)

lemma object_bytes_byte [simp]: "object_bytes host (x :: byte) = [x]"
  by (cases host) (simp_all add: object_bytes_def)

lemma wire_byte [wire_simps]: "object_bytes host (netbo_byte host x) = [x]"
  by simp

section \<open>Raw reads and writes\<close>

definition writebytes :: "endianness \<Rightarrow> iter \<Rightarrow> 'a::len word \<Rightarrow> iter result" where
  "writebytes host it x = put_bytes (object_bytes host x) it"

definition readbytes :: "endianness \<Rightarrow> 'a::len itself \<Rightarrow> iter \<Rightarrow> ('a word \<times> iter) result" where
  "readbytes host T it =
     rbind (get_bytes (LENGTH('a) div 8) it) (\<lambda>(bs, it'). Inr (object_of_bytes host bs, it'))"

text \<open>The overload for a single byte dereferences and increments.\<close>

definition readbytes_byte :: "iter \<Rightarrow> (byte \<times> iter) result" where
  "readbytes_byte it = get_byte it"

lemma readbytes_byte_generic: "readbytes_byte it = readbytes host TYPE(8) it"
proof (cases "get_byte it")
  case (Inr p)
  have "object_of_bytes host [fst p] = (fst p :: byte)"
    by (cases host) (simp_all add: object_of_bytes_def)
  with Inr show ?thesis
    by (cases p) (simp add: readbytes_byte_def readbytes_def)
qed (simp add: readbytes_byte_def readbytes_def)

text \<open>Reading at the position a value was written to gives the value back.\<close>

lemma readbytes_writebytes:
  fixes x :: "'a::len word"
  assumes "8 dvd LENGTH('a)" and "writebytes host (buf, pos) x = Inr (buf', pos')" and "pos \<le> length buf"
  shows "readbytes host TYPE('a) (buf', pos) = Inr (x, (buf', pos'))"
proof -
  have sz: "size_of x = LENGTH('a) div 8" by (simp add: size_of_def)
  from assms(2,3) have fits: "pos + size_of x \<le> length buf"
      and buf': "buf' = take pos buf @ object_bytes host x @ drop (pos + size_of x) buf"
      and pos': "pos' = pos + size_of x"
    by (auto simp: writebytes_def put_bytes_result split: if_splits)
  have "get_bytes (LENGTH('a) div 8) (buf', pos) = Inr (object_bytes host x, (buf', pos'))"
    using fits by (subst get_bytes_fits) (simp_all add: buf' pos' sz)
  with assms(1) show ?thesis
    by (simp add: readbytes_def object_of_object_bytes)
qed

lemma hostbo_netbo_uint2b [simp]: "hostbo_uint2b host (netbo_uint2b host x) = x"
  by (cases host) (simp_all add: netbo_generic to_netbo_def to_hostbo_def reversebytes_involution)

lemma hostbo_netbo_uint4b [simp]: "hostbo_uint4b host (netbo_uint4b host x) = x"
  by (cases host) (simp_all add: netbo_generic to_netbo_def to_hostbo_def reversebytes_involution)

lemma hostbo_netbo_uint8b [simp]: "hostbo_uint8b host (netbo_uint8b host x) = x"
  by (cases host) (simp_all add: to_netbo_def to_hostbo_def reversebytes_involution)

text \<open>Reading a converted value is reading its bytes least significant first.\<close>

lemma hostbo_read_uint2b [wire_simps]:
  "length bs = 2 \<Longrightarrow> hostbo_uint2b host (object_of_bytes host bs) = word_of_le bs"
  by (simp add: netbo_generic to_hostbo_object_of_bytes)

lemma hostbo_read_uint4b [wire_simps]:
  "length bs = 4 \<Longrightarrow> hostbo_uint4b host (object_of_bytes host bs) = word_of_le bs"
  by (simp add: netbo_generic to_hostbo_object_of_bytes)

lemma hostbo_read_uint8b [wire_simps]:
  "length bs = 8 \<Longrightarrow> hostbo_uint8b host (object_of_bytes host bs) = word_of_le bs"
  by (simp add: to_hostbo_object_of_bytes)

end
