(* ===== verification/MsgLayer.thy ===== *)
theory MsgLayer
  imports Bytes
begin

text \<open>
  \<open>include/msglayer.hpp\<close> and \<open>src/common/msglayer.cpp\<close>: the message layers.
  What a layer promises (\<open>BasicMessageLayer\<close>) is the locale \<open>message_layer\<close>;
  the client of that interface is the segmentation layer, whose facts are
  proved once inside the locale.  \<open>SerializedData\<close> and \<open>StringwrapLayer\<close> are
  the providers in this theory, \<open>NearUserMessage\<close> is one in \<open>NearTypes\<close>.
\<close>

section \<open>BasicMessageLayer: the interface of a layer\<close>

text \<open>
  The sender of a packet allocates a vector of \<open>size()\<close> bytes and calls
  \<open>fillSerialized\<close> on its beginning; the code does this in three places
  (the client's \<open>react(EvtSendMsg)\<close>, \<open>ConnectedClient::sendPacket\<close>,
  \<open>RemotePeer::sendMessage\<close>).
\<close>

definition serialize :: "('m \<Rightarrow> nat) \<Rightarrow> ('m \<Rightarrow> iter \<Rightarrow> iter result) \<Rightarrow> 'm \<Rightarrow> byte list result" where
  "serialize size_fn fill_fn m =
     rbind (vector_ctor (size_fn m)) (\<lambda>buf.
     rbind (fill_fn m (buf, 0)) (\<lambda>(buf', it). Inr buf'))"

locale message_layer =
  fixes size_fn :: "'m \<Rightarrow> nat"
    and fill_fn :: "'m \<Rightarrow> iter \<Rightarrow> iter result"
    and wire :: "'m \<Rightarrow> byte list"
    and ok :: "'m \<Rightarrow> bool"
  assumes size_law: "ok m \<Longrightarrow> length (wire m) = size_fn m"
    and fill_law: "ok m \<Longrightarrow> fill_fn m it = put_bytes (wire m) it"

section \<open>SegmentationLayer\<close>

definition SEGM_LAYER_ID :: byte where "SEGM_LAYER_ID = 0x80"
definition segm_header_length :: nat where "segm_header_length = 4"

record segm_header =
  packetsize :: uint2b

text \<open>\<open>headerbuf[i]\<close> on an iterator into a buffer.\<close>

definition iter_at :: "iter \<Rightarrow> nat \<Rightarrow> byte result" where
  "iter_at it i = (if snd it + i < length (fst it) then Inr (fst it ! (snd it + i))
                   else Inl (Undefined ReadOutOfBounds))"

definition iter_plus :: "iter \<Rightarrow> nat \<Rightarrow> iter" where
  "iter_plus it n = (fst it, snd it + n)"

definition decodeHeader :: "endianness \<Rightarrow> iter \<Rightarrow> segm_header result" where
  "decodeHeader host headerbuf =
     rbind (iter_at headerbuf 0) (\<lambda>b0.
     if b0 \<noteq> SEGM_LAYER_ID then Inl (Throw InvalidHeaderError)
     else rbind (readbytes host TYPE(16) (iter_plus headerbuf 1)) (\<lambda>(raw, _).
          rbind (iter_at headerbuf 3) (\<lambda>b3.
          if b3 \<noteq> 0 then Inl (Throw InvalidHeaderError)
          else Inr \<lparr>packetsize = hostbo_uint2b host raw\<rparr>)))"

text \<open>The template is parametric in the inner layer: its operations are arguments.\<close>

definition segm_size :: "('m \<Rightarrow> nat) \<Rightarrow> 'm \<Rightarrow> nat" where
  "segm_size inner_size m = inner_size m + segm_header_length"

definition segm_fillSerialized ::
  "endianness \<Rightarrow> ('m \<Rightarrow> nat) \<Rightarrow> ('m \<Rightarrow> iter \<Rightarrow> iter result) \<Rightarrow> 'm \<Rightarrow> iter \<Rightarrow> iter result" where
  "segm_fillSerialized host inner_size inner_fill m it =
     rbind (put_byte SEGM_LAYER_ID it) (\<lambda>it.
     rbind (writebytes host it
              (netbo_uint2b host (word_of_nat (inner_size m + segm_header_length)))) (\<lambda>it.
     rbind (put_byte 0 it) (\<lambda>it.
     inner_fill m it)))"

text \<open>The header as bytes, least significant byte of the size first.\<close>

definition segm_header_bytes :: "uint2b \<Rightarrow> byte list" where
  "segm_header_bytes n = SEGM_LAYER_ID # le_bytes 2 n @ [0]"

definition segm_wire :: "('m \<Rightarrow> byte list) \<Rightarrow> 'm \<Rightarrow> byte list" where
  "segm_wire inner_wire m =
     segm_header_bytes (word_of_nat (length (inner_wire m) + segm_header_length)) @ inner_wire m"

lemma length_segm_header_bytes [simp]: "length (segm_header_bytes n) = 4"
  by (simp add: segm_header_bytes_def)

lemma length_segm_wire [wire_simps]: "length (segm_wire w m) = length (w m) + 4"
  by (simp add: segm_wire_def)

lemma le_bytes_2: "le_bytes 2 x = [ucast x, ucast (drop_bit 8 x)]"
  by (rule le_bytes_unfold)

lemma decodeHeader_bytes:
  "decodeHeader host ([b0, b1, b2, b3] @ rest, 0) =
     (if b0 = 0x80 \<and> b3 = 0 then Inr \<lparr>packetsize = word_of_le [b1, b2]\<rparr>
      else Inl (Throw InvalidHeaderError))"
proof -
  have "readbytes host TYPE(16) (b0 # b1 # b2 # b3 # rest, Suc 0) =
      Inr (object_of_bytes host [b1, b2], (b0 # b1 # b2 # b3 # rest, 3))" for b0 b3
    by (simp add: readbytes_def get_bytes_fits)
  then show ?thesis
    by (simp add: decodeHeader_def iter_at_def iter_plus_def SEGM_LAYER_ID_def hostbo_read_uint2b)
qed

lemma decodeHeader_four:
  assumes "length bs = 4"
  shows "decodeHeader host (bs, 0) =
     (if bs ! 0 = 0x80 \<and> bs ! 3 = 0 then Inr \<lparr>packetsize = word_of_le [bs ! 1, bs ! 2]\<rparr>
      else Inl (Throw InvalidHeaderError))"
proof -
  from assms obtain b0 b1 b2 b3 where "bs = [b0, b1, b2, b3]"
    by (auto simp: length_Suc_conv numeral_eq_Suc)
  then show ?thesis using decodeHeader_bytes [of host b0 b1 b2 b3 "[]"] by simp
qed

lemma decodeHeader_header_bytes:
  "decodeHeader host (segm_header_bytes n @ rest, 0) = Inr \<lparr>packetsize = n\<rparr>"
proof -
  have "word_of_le (le_bytes 2 n) = n" by (simp add: word_of_le_le_bytes)
  then show ?thesis
    using decodeHeader_bytes [of host "0x80" "ucast n" "ucast (drop_bit 8 n)" 0 rest]
    by (simp add: segm_header_bytes_def SEGM_LAYER_ID_def le_bytes_2)
qed

text \<open>The encoding of a header is unique.\<close>

lemma decodeHeader_inverse:
  assumes "length bs = 4" and "decodeHeader host (bs, 0) = Inr h"
  shows "bs = segm_header_bytes (packetsize h)"
proof -
  from assms(1) obtain b0 b1 b2 b3 where bs: "bs = [b0, b1, b2, b3]"
    by (auto simp: length_Suc_conv numeral_eq_Suc)
  have "le_bytes (length [b1, b2]) (word_of_le [b1, b2] :: uint2b) = [b1, b2]"
    by (rule le_bytes_word_of_le) simp
  then have "le_bytes 2 (word_of_le [b1, b2] :: uint2b) = [b1, b2]"
    by (simp add: numeral_2_eq_2)
  with assms(2) show ?thesis
    by (auto simp: bs decodeHeader_bytes [where rest = "[]", simplified] segm_header_bytes_def
        SEGM_LAYER_ID_def split: if_splits)
qed

lemma unat_uint2b: "unat (word_of_nat n :: uint2b) = n mod 65536"
  by (simp add: unat_of_nat take_bit_eq_mod)

context message_layer
begin

lemma size_fn_wire: "ok m \<Longrightarrow> size_fn m = length (wire m)"
  by (simp add: size_law)

text \<open>Serialising into a vector of \<open>size()\<close> bytes never leaves it and fills it exactly.\<close>

lemma serialize_wire:
  "ok m \<Longrightarrow> size_fn m \<le> vector_max_size \<Longrightarrow> serialize size_fn fill_fn m = Inr (wire m)"
  by (simp add: serialize_def vector_ctor_small fill_law put_bytes_fresh size_law)

lemma fill_advances:
  "ok m \<Longrightarrow> pos + size_fn m \<le> length buf \<Longrightarrow>
   fill_fn m (buf, pos) =
     Inr (take pos buf @ wire m @ drop (pos + size_fn m) buf, pos + size_fn m)"
  by (simp add: fill_law put_bytes_fits size_law)

lemma fill_small_buffer:
  "ok m \<Longrightarrow> pos \<le> length buf \<Longrightarrow> length buf < pos + size_fn m \<Longrightarrow>
   fill_fn m (buf, pos) = Inl (Undefined WriteOutOfBounds)"
  by (simp add: fill_law put_bytes_overflow size_law)

text \<open>A layer wrapped in the segmentation layer keeps the contract of a layer.\<close>

lemma segm_fill:
  "ok m \<Longrightarrow> segm_fillSerialized host size_fn fill_fn m it = put_bytes (segm_wire wire m) it"
  by (simp add: segm_fillSerialized_def segm_wire_def segm_header_bytes_def writebytes_def
      wire_uint2b fill_law size_law iter_simps put_bytes_single cong: rbind_cong)

lemma segm_message_layer:
  "message_layer (segm_size size_fn) (segm_fillSerialized host size_fn fill_fn) (segm_wire wire) ok"
  by unfold_locales
    (simp_all add: segm_fill length_segm_wire segm_size_def segm_header_length_def size_law)

lemma segm_serialize:
  "ok m \<Longrightarrow> size_fn m + 4 \<le> vector_max_size \<Longrightarrow>
   serialize (segm_size size_fn) (segm_fillSerialized host size_fn fill_fn) m = Inr (segm_wire wire m)"
  by (rule message_layer.serialize_wire [OF segm_message_layer])
    (simp_all add: segm_size_def segm_header_length_def)

text \<open>What the receiver's header decoder reads from the packet.\<close>

lemma segm_decode:
  "decodeHeader host (segm_wire wire m, 0) = Inr \<lparr>packetsize = word_of_nat (length (wire m) + 4)\<rparr>"
  by (simp add: segm_wire_def decodeHeader_header_bytes segm_header_length_def)

lemma segm_packetsize:
  "ok m \<Longrightarrow>
   unat (word_of_nat (length (wire m) + 4) :: uint2b) = (size_fn m + 4) mod 65536"
  by (simp only: unat_uint2b size_law)

end

section \<open>SerializedData\<close>

text \<open>
  A reference to a memory block, an iterator into it and the size of the data.
  The block is immutable while shared (\<open>shared_ptr<const byte_sequence>\<close>), so
  its contents stand for it.
\<close>

record serialized_data =
  sd_memblock :: "byte list"
  sd_begin :: nat
  sd_datasize :: nat

definition sd_size :: "serialized_data \<Rightarrow> nat" where
  "sd_size d = sd_datasize d"

definition sd_begin_it :: "serialized_data \<Rightarrow> iter" where
  "sd_begin_it d = (sd_memblock d, sd_begin d)"

definition sd_fillSerialized :: "serialized_data \<Rightarrow> iter \<Rightarrow> iter result" where
  "sd_fillSerialized d it =
     rbind (get_bytes (sd_datasize d) (sd_begin_it d)) (\<lambda>(bs, _). put_bytes bs it)"

definition sd_ctor :: "byte list \<Rightarrow> nat \<Rightarrow> nat \<Rightarrow> serialized_data" where
  "sd_ctor memblock begin_it datasize =
     \<lparr>sd_memblock = memblock, sd_begin = begin_it, sd_datasize = datasize\<rparr>"

text \<open>The data of a whole block, as the receiving handlers construct it.\<close>

definition sd_of_block :: "byte list \<Rightarrow> serialized_data" where
  "sd_of_block block = sd_ctor block 0 (length block)"

declare sd_ctor_def [simp]

definition sd_ok :: "serialized_data \<Rightarrow> bool" where
  "sd_ok d \<longleftrightarrow> sd_begin d + sd_datasize d \<le> length (sd_memblock d)"

definition sd_view :: "serialized_data \<Rightarrow> byte list" where
  "sd_view d = take (sd_datasize d) (drop (sd_begin d) (sd_memblock d))"

text \<open>
  The copy assignment.  The new vector has the size of the assigned object
  (\<open>_datasize\<close>), not of the copied one.  The copy constructor delegates to it
  on an object whose members are not initialised: \<open>self\<close> is then whatever the
  memory holds.
\<close>

definition sd_assign :: "bool \<Rightarrow> serialized_data \<Rightarrow> serialized_data \<Rightarrow> serialized_data result" where
  "sd_assign same_object self other =
     (if same_object then Inr self
      else rbind (vector_ctor (sd_datasize self)) (\<lambda>data.
           rbind (sd_fillSerialized other (data, 0)) (\<lambda>(data, _).
           Inr (self\<lparr>sd_memblock := data, sd_begin := 0, sd_datasize := sd_datasize other\<rparr>))))"

definition sd_copy_ctor :: "serialized_data \<Rightarrow> serialized_data \<Rightarrow> serialized_data result" where
  "sd_copy_ctor uninitialised other = sd_assign False uninitialised other"

text \<open>
  The move constructor: the new object, and what is left of \<open>other\<close>, which has given
  away its block but keeps its iterator and size.
\<close>

definition sd_move_ctor :: "serialized_data \<Rightarrow> serialized_data \<times> serialized_data" where
  "sd_move_ctor other = (other, other\<lparr>sd_memblock := []\<rparr>)"

lemma sd_of_block_simps [simp]:
  "sd_ok (sd_of_block bs)"
  "sd_view (sd_of_block bs) = bs"
  "sd_size (sd_of_block bs) = length bs"
  by (simp_all add: sd_of_block_def sd_ok_def sd_view_def sd_size_def)

lemma length_sd_view [wire_simps]: "sd_ok d \<Longrightarrow> length (sd_view d) = sd_datasize d"
  by (simp add: sd_ok_def sd_view_def)

interpretation sd: message_layer sd_size sd_fillSerialized sd_view sd_ok
  by unfold_locales
    (simp_all add: sd_size_def length_sd_view sd_fillSerialized_def sd_begin_it_def sd_ok_def
      get_bytes_fits, simp_all add: sd_view_def)

interpretation segm_sd: message_layer
  "segm_size sd_size" "segm_fillSerialized host sd_size sd_fillSerialized" "segm_wire sd_view" sd_ok
  for host
  by (rule sd.segm_message_layer)

lemma sd_assign_result:
  assumes "sd_ok other" and "sd_datasize self \<le> vector_max_size"
  shows "sd_assign False self other =
     (if sd_datasize other \<le> sd_datasize self
      then Inr (self\<lparr>sd_memblock := sd_view other @ replicate (sd_datasize self - sd_datasize other) 0,
                     sd_begin := 0, sd_datasize := sd_datasize other\<rparr>)
      else Inl (Undefined WriteOutOfBounds))"
proof -
  have "sd_fillSerialized other (replicate (sd_datasize self) 0, 0) =
      put_bytes (sd_view other) (replicate (sd_datasize self) 0, 0)"
    using assms(1) by (rule sd.fill_law)
  with assms show ?thesis
    by (simp add: sd_assign_def vector_ctor_small put_bytes_result length_sd_view)
qed

text \<open>A moved object serialises as before; what is left of it cannot be used, unless it is empty.\<close>

lemma moved_data:
  "sd_fillSerialized (fst (sd_move_ctor d)) it = sd_fillSerialized d it"
  "sd_ok (snd (sd_move_ctor d)) \<Longrightarrow> sd_size d = 0"
  "0 < sd_size d \<Longrightarrow> sd_fillSerialized (snd (sd_move_ctor d)) it = Inl (Undefined ReadOutOfBounds)"
proof -
  show "0 < sd_size d \<Longrightarrow> sd_fillSerialized (snd (sd_move_ctor d)) it = Inl (Undefined ReadOutOfBounds)"
    by (cases "sd_datasize d")
      (simp_all add: sd_move_ctor_def sd_fillSerialized_def sd_begin_it_def sd_size_def get_byte_def)
qed (simp_all add: sd_move_ctor_def sd_ok_def sd_size_def)

section \<open>StringwrapLayer\<close>

text \<open>
  A \<open>msg_string\<close> is a \<open>std::basic_string<char>\<close>: a sequence of one byte
  characters.
\<close>

record stringwrap_layer =
  sw_message_string :: "byte list"

text \<open>The constructors from a string: copied or moved, the text is the same.\<close>

definition sw_ctor :: "byte list \<Rightarrow> stringwrap_layer" where
  "sw_ctor msg = \<lparr>sw_message_string = msg\<rparr>"

declare sw_ctor_def [simp]

definition char_size :: nat where "char_size = 1"

definition sw_size :: "stringwrap_layer \<Rightarrow> nat" where
  "sw_size m = length (sw_message_string m) * char_size"

fun fill_chars :: "endianness \<Rightarrow> byte list \<Rightarrow> iter \<Rightarrow> iter result" where
  "fill_chars host [] it = Inr it"
| "fill_chars host (c # cs) it =
     rbind (writebytes host it (netbo_byte host c)) (\<lambda>it'. fill_chars host cs it')"

definition sw_fillSerialized :: "endianness \<Rightarrow> stringwrap_layer \<Rightarrow> iter \<Rightarrow> iter result" where
  "sw_fillSerialized host m it = fill_chars host (sw_message_string m) it"

lemma readbytes_advances:
  "readbytes host TYPE('a::len) it = Inr (x, it') \<Longrightarrow> snd it' = snd it + LENGTH('a) div 8"
  by (auto simp: readbytes_def rbind_eq_Inr_iff dest: get_bytes_length)

text \<open>The loop of the constructor from serialised data: it ends because each read advances.\<close>

function sw_read_loop :: "endianness \<Rightarrow> iter \<Rightarrow> nat \<Rightarrow> iter \<Rightarrow> iter result" where
  "sw_read_loop host it stop out =
     (if snd it < stop
      then rbind (readbytes host TYPE(8) it) (\<lambda>p.
           rbind (put_byte (hostbo_byte host (fst p)) out) (\<lambda>out'.
           sw_read_loop host (snd p) stop out'))
      else Inr out)"
  by pat_completeness auto
termination
  by (relation "measure (\<lambda>(host, it, stop, out). stop - snd it)")
    (auto dest: readbytes_advances)

declare sw_read_loop.simps [simp del]

definition sw_of_serialized :: "endianness \<Rightarrow> serialized_data \<Rightarrow> stringwrap_layer result" where
  "sw_of_serialized host msg =
     (let datasize = sd_size msg; data_it = sd_begin_it msg in
      if datasize mod char_size \<noteq> 0 then Inl (Throw (MsgLayerError ''Unaligned packet''))
      else rbind (sw_read_loop host data_it (snd data_it + datasize)
                    (replicate (datasize div char_size) 0, 0)) (\<lambda>(str, _).
           Inr \<lparr>sw_message_string = str\<rparr>))"

lemma fill_chars_put: "fill_chars host cs it = put_bytes cs it"
  by (induction cs arbitrary: it)
    (simp_all add: writebytes_def put_bytes_single cong: rbind_cong)

interpretation sw: message_layer sw_size "sw_fillSerialized host" sw_message_string "\<lambda>_. True"
  for host
  by unfold_locales (simp_all add: sw_size_def char_size_def sw_fillSerialized_def fill_chars_put)

interpretation segm_sw: message_layer
  "segm_size sw_size" "segm_fillSerialized host sw_size (sw_fillSerialized host)"
  "segm_wire sw_message_string" "\<lambda>_. True"
  for host
  by (rule sw.segm_message_layer)

lemma sw_read_loop_range:
  "pos + n \<le> length buf \<Longrightarrow>
   sw_read_loop host (buf, pos) (pos + n) out = put_bytes (take n (drop pos buf)) out"
proof (induction n arbitrary: pos out)
  case 0
  then show ?case by (simp add: sw_read_loop.simps)
next
  case (Suc n)
  then have lt: "pos < length buf" by simp
  have read: "readbytes host TYPE(8) (buf, pos) = Inr (buf ! pos, (buf, Suc pos))"
    using lt by (simp add: readbytes_byte_generic [symmetric] readbytes_byte_def get_byte_def)
  have IH: "sw_read_loop host (buf, Suc pos) (Suc (pos + n)) out' =
      put_bytes (take n (drop (Suc pos) buf)) out'" for out'
    using Suc.IH [of "Suc pos"] Suc.prems by simp
  have "take (Suc n) (drop pos buf) = buf ! pos # take n (drop (Suc pos) buf)"
    using lt by (simp add: Cons_nth_drop_Suc [symmetric])
  then show ?case
    by (subst sw_read_loop.simps) (simp add: read IH cong: rbind_cong)
qed

text \<open>Reading a well-formed block never fails: the alignment check cannot fire for one byte characters.\<close>

lemma sw_of_serialized_ok:
  assumes "sd_ok d"
  shows "sw_of_serialized host d = Inr \<lparr>sw_message_string = sd_view d\<rparr>"
proof -
  have "sw_read_loop host (sd_memblock d, sd_begin d) (sd_begin d + sd_datasize d)
      (replicate (sd_datasize d) 0, 0) = Inr (sd_view d, sd_datasize d)"
    using assms by (simp add: sd_ok_def sw_read_loop_range put_bytes_fresh sd_view_def)
  then show ?thesis
    by (simp add: sw_of_serialized_def sd_size_def sd_begin_it_def char_size_def)
qed

section \<open>From a received header to the buffer of the body\<close>

text \<open>
  The three receivers (\<open>StateConnected\<close>, \<open>ConnectedClient\<close>, \<open>RemotePeer\<close>)
  treat a received header alike: decode it, refuse sizes above
  \<open>MAX_PACKETSIZE\<close> (with an exception of their choice), and allocate
  \<open>packetsize - header_length\<close> bytes, a subtraction in \<open>size_t\<close> that wraps
  around when the size is smaller than the header.
\<close>

definition MAX_PACKETSIZE :: uint2b where "MAX_PACKETSIZE = 0x8FFF"

definition body_size :: "segm_header \<Rightarrow> nat" where
  "body_size h = unat ((ucast (packetsize h) :: 64 word) - word_of_nat segm_header_length)"

definition body_buffer :: "endianness \<Rightarrow> exn \<Rightarrow> byte list \<Rightarrow> byte list result" where
  "body_buffer host oversized headerbuf =
     rbind (decodeHeader host (headerbuf, 0)) (\<lambda>header_data.
     if packetsize header_data > MAX_PACKETSIZE then Inl (Throw oversized)
     else vector_ctor (body_size header_data))"

lemma body_size_cases:
  "body_size h = (if 4 \<le> unat (packetsize h) then unat (packetsize h) - 4
                  else unat (packetsize h) + (2 ^ 64 - 4))"
proof -
  have "unat (packetsize h) < 2 ^ 16" by (rule order_less_le_trans [OF unsigned_less]) simp
  then have "unat (ucast (packetsize h) :: 64 word) = unat (packetsize h)"
    by (simp add: unsigned_ucast_eq take_bit_nat_eq_self)
  then show ?thesis
    by (simp add: body_size_def segm_header_length_def unat_sub_if')
qed

lemma vector_ctor_body:
  assumes "\<not> packetsize h > MAX_PACKETSIZE"
  shows "vector_ctor (body_size h) =
     (if unat (packetsize h) < 4 then Inl (Throw LengthError)
      else Inr (replicate (unat (packetsize h) - 4) 0))"
  using assms
  by (auto simp: body_size_cases vector_ctor_def vector_max_size_def MAX_PACKETSIZE_def
      word_le_nat_alt not_less)

text \<open>Every header of four bytes has one of these outcomes; none is undefined.\<close>

lemma body_buffer_cases:
  assumes "length hb = 4"
  shows "body_buffer host oversized hb =
     (if hb ! 0 \<noteq> 0x80 \<or> hb ! 3 \<noteq> 0 then Inl (Throw InvalidHeaderError)
      else let n = unat (word_of_le [hb ! 1, hb ! 2] :: uint2b)
           in if 0x8FFF < n then Inl (Throw oversized)
              else if n < 4 then Inl (Throw LengthError)
              else Inr (replicate (n - 4) 0))"
proof -
  let ?h = "\<lparr>packetsize = word_of_le [hb ! 1, hb ! 2]\<rparr>"
  have max: "packetsize ?h > MAX_PACKETSIZE \<longleftrightarrow>
      0x8FFF < unat (word_of_le [hb ! 1, hb ! 2] :: uint2b)"
    by (simp add: MAX_PACKETSIZE_def word_less_nat_alt)
  show ?thesis
    using vector_ctor_body [of ?h] max
    by (simp add: body_buffer_def decodeHeader_four [OF assms] Let_def del: word_of_le.simps)
qed

lemma body_buffer_header_bytes:
  "4 \<le> n \<Longrightarrow> n \<le> 0x8FFF \<Longrightarrow>
   body_buffer host oversized (segm_header_bytes (word_of_nat n)) = Inr (replicate (n - 4) 0)"
  using vector_ctor_body [of "\<lparr>packetsize = word_of_nat n\<rparr>"]
    decodeHeader_header_bytes [of host "word_of_nat n" "[]"]
  by (simp add: body_buffer_def MAX_PACKETSIZE_def word_less_nat_alt unat_uint2b)

lemma body_buffer_no_ub:
  "length hb = 4 \<Longrightarrow> body_buffer host oversized hb \<noteq> Inl (Undefined u)"
  by (simp add: body_buffer_cases Let_def)

lemma body_buffer_small:
  "length hb = 4 \<Longrightarrow> body_buffer host oversized hb = Inr buf \<Longrightarrow> length buf \<le> 0x8FFF - 4"
  by (auto simp: body_buffer_cases Let_def split: if_splits)

end
