(* ===== verification/NearTypes.thy ===== *)
theory NearTypes
  imports MsgLayer
begin

text \<open>
  \<open>include/neartypes.hpp\<close> and \<open>src/common/neartypes.cpp\<close>: user identifiers and
  the user message layer.  \<open>NearUserMessage\<close> is interpreted as a
  \<open>message_layer\<close>, alone and wrapped in the segmentation layer; parsing is
  described on every branch and shown inverse to serialising, whatever the
  byte orders of the two machines.
\<close>

section \<open>UniqueUserID\<close>

record unique_user_id =
  uuid_id :: uint8b

definition id_length :: nat where "id_length = size_of (0 :: uint8b)"

definition uuid_ctor :: "uint8b \<Rightarrow> unique_user_id" where
  "uuid_ctor i = \<lparr>uuid_id = i\<rparr>"

declare uuid_ctor_def [simp]

definition user_id_none :: unique_user_id where
  "user_id_none = uuid_ctor 0"

text \<open>\<open>operator ==\<close>.\<close>

definition uuid_eq :: "unique_user_id \<Rightarrow> unique_user_id \<Rightarrow> bool" where
  "uuid_eq u other \<longleftrightarrow> uuid_id u = uuid_id other"

lemma uuid_eq [simp]: "uuid_eq u v \<longleftrightarrow> u = v"
  by (cases u; cases v) (simp add: uuid_eq_def)

definition uuid_of_iter :: "endianness \<Rightarrow> iter \<Rightarrow> unique_user_id result" where
  "uuid_of_iter host it =
     rbind (get_bytes id_length it) (\<lambda>(bs, _).
     Inr \<lparr>uuid_id = hostbo_uint8b host (object_of_bytes host bs)\<rparr>)"

definition uuid_size :: "unique_user_id \<Rightarrow> nat" where
  "uuid_size u = id_length"

definition uuid_fillSerialized :: "endianness \<Rightarrow> unique_user_id \<Rightarrow> iter \<Rightarrow> iter result" where
  "uuid_fillSerialized host u it = writebytes host it (netbo_uint8b host (uuid_id u))"

definition uuid_wire :: "unique_user_id \<Rightarrow> byte list" where
  "uuid_wire u = le_bytes 8 (uuid_id u)"

lemma uuid_fill: "uuid_fillSerialized host u it = put_bytes (uuid_wire u) it"
  by (simp add: uuid_fillSerialized_def uuid_wire_def writebytes_def wire_uint8b)

lemma id_length_8 [simp]: "id_length = 8"
  by (simp add: id_length_def)

section \<open>NearUserMessage\<close>

record near_user_message =
  num_msg_id :: uint4b
  num_recipient :: unique_user_id
  num_sender :: unique_user_id
  num_stringwrap :: stringwrap_layer

definition NUM_LAYER_ID :: byte where "NUM_LAYER_ID = 0x41"

definition num_header_length :: nat where
  "num_header_length = 1 + size_of (0 :: uint4b) + id_length + id_length"

text \<open>The constructor from a string layer; recipient, sender and identifier have defaults.\<close>

definition num_of_stringwrap ::
  "stringwrap_layer \<Rightarrow> unique_user_id \<Rightarrow> unique_user_id \<Rightarrow> uint4b \<Rightarrow> near_user_message" where
  "num_of_stringwrap stringwrap to_id from_id msg_id =
     \<lparr>num_msg_id = msg_id, num_recipient = to_id, num_sender = from_id, num_stringwrap = stringwrap\<rparr>"

definition num_size :: "near_user_message \<Rightarrow> nat" where
  "num_size m = num_header_length + sw_size (num_stringwrap m)"

definition num_fillSerialized :: "endianness \<Rightarrow> near_user_message \<Rightarrow> iter \<Rightarrow> iter result" where
  "num_fillSerialized host m it =
     rbind (put_byte NUM_LAYER_ID it) (\<lambda>it.
     rbind (writebytes host it (netbo_uint4b host (num_msg_id m))) (\<lambda>it.
     rbind (uuid_fillSerialized host (num_recipient m) it) (\<lambda>it.
     rbind (uuid_fillSerialized host (num_sender m) it) (\<lambda>it.
     sw_fillSerialized host (num_stringwrap m) it))))"

definition num_of_serialized :: "endianness \<Rightarrow> serialized_data \<Rightarrow> near_user_message result" where
  "num_of_serialized host data =
     (let in_it = sd_begin_it data in
      if sd_size data < num_header_length then Inl (Throw UndersizedPacketError)
      else rbind (get_byte in_it) (\<lambda>(b, in_it).
        if b \<noteq> NUM_LAYER_ID then Inl (Throw InvalidHeaderError)
        else rbind (readbytes host TYPE(32) in_it) (\<lambda>(raw_id, in_it).
          rbind (uuid_of_iter host in_it) (\<lambda>recipient.
          let in_it = iter_plus in_it id_length in
          rbind (uuid_of_iter host in_it) (\<lambda>sender.
          let in_it = iter_plus in_it id_length in
          rbind (sw_of_serialized host
                   (sd_ctor (sd_memblock data) (snd in_it) (sd_size data - num_header_length))) (\<lambda>sw.
          Inr \<lparr>num_msg_id = hostbo_uint4b host raw_id, num_recipient = recipient,
               num_sender = sender, num_stringwrap = sw\<rparr>))))))"

definition num_wire :: "near_user_message \<Rightarrow> byte list" where
  "num_wire m = NUM_LAYER_ID # le_bytes 4 (num_msg_id m) @ uuid_wire (num_recipient m)
     @ uuid_wire (num_sender m) @ sw_message_string (num_stringwrap m)"

lemma num_header_length_21 [simp]: "num_header_length = 21"
  by (simp add: num_header_length_def)

lemma length_num_wire [wire_simps]: "length (num_wire m) = num_size m"
  by (simp add: num_wire_def num_size_def uuid_wire_def sw_size_def char_size_def)

lemma num_fill: "num_fillSerialized host m it = put_bytes (num_wire m) it"
  by (simp add: num_fillSerialized_def num_wire_def writebytes_def wire_uint4b uuid_fill
      sw.fill_law iter_simps cong: rbind_cong)

interpretation num: message_layer num_size "num_fillSerialized host" num_wire "\<lambda>_. True"
  for host
  by unfold_locales (simp_all add: length_num_wire num_fill)

interpretation segm_num: message_layer
  "segm_size num_size" "segm_fillSerialized host num_size (num_fillSerialized host)"
  "segm_wire num_wire" "\<lambda>_. True"
  for host
  by (rule num.segm_message_layer)

section \<open>Parsing\<close>

text \<open>The fields of a message, read off the bytes of a packet.\<close>

definition num_parse :: "byte list \<Rightarrow> near_user_message" where
  "num_parse v =
     \<lparr>num_msg_id = word_of_le (take 4 (drop 1 v)),
      num_recipient = \<lparr>uuid_id = word_of_le (take 8 (drop 5 v))\<rparr>,
      num_sender = \<lparr>uuid_id = word_of_le (take 8 (drop 13 v))\<rparr>,
      num_stringwrap = \<lparr>sw_message_string = drop 21 v\<rparr>\<rparr>"

lemma uuid_of_iter_fits:
  "pos + 8 \<le> length buf \<Longrightarrow>
   uuid_of_iter host (buf, pos) = Inr \<lparr>uuid_id = word_of_le (take 8 (drop pos buf))\<rparr>"
  by (simp add: uuid_of_iter_def get_bytes_fits hostbo_read_uint8b)

lemma take_drop_view:
  "sd_ok d \<Longrightarrow> i + n \<le> sd_datasize d \<Longrightarrow>
   take n (drop i (sd_view d)) = take n (drop (sd_begin d + i) (sd_memblock d))"
  by (simp add: sd_view_def drop_take min_def add.commute)

lemma num_of_serialized_cases:
  assumes "sd_ok d"
  shows "num_of_serialized host d =
     (if length (sd_view d) < 21 then Inl (Throw UndersizedPacketError)
      else if hd (sd_view d) \<noteq> NUM_LAYER_ID then Inl (Throw InvalidHeaderError)
      else Inr (num_parse (sd_view d)))"
proof (cases "sd_datasize d < 21")
  case True
  with assms show ?thesis by (simp add: num_of_serialized_def length_sd_view sd_size_def)
next
  case False
  let ?m = "sd_memblock d" and ?p = "sd_begin d"
  from False assms have len: "?p + 21 \<le> length ?m" by (simp add: sd_ok_def)
  have hd_view: "hd (sd_view d) = ?m ! ?p"
    using False len by (simp add: sd_view_def hd_conv_nth)
  have id_read: "readbytes host TYPE(32) (?m, Suc ?p) =
      Inr (object_of_bytes host (take 4 (drop (Suc ?p) ?m)), (?m, ?p + 5))"
    using len by (simp add: readbytes_def get_bytes_fits)
  have id_val: "hostbo_uint4b host (object_of_bytes host (take 4 (drop (Suc ?p) ?m)))
      = word_of_le (take 4 (drop 1 (sd_view d)))"
    using len False take_drop_view [OF assms, of 1 4] by (simp add: hostbo_read_uint4b)
  have text_view: "sd_view \<lparr>sd_memblock = ?m, sd_begin = ?p + 21, sd_datasize = sd_datasize d - 21\<rparr>
      = drop 21 (sd_view d)"
    by (simp add: sd_view_def drop_take add.commute)
  have text_ok: "sd_ok \<lparr>sd_memblock = ?m, sd_begin = ?p + 21, sd_datasize = sd_datasize d - 21\<rparr>"
    using assms False by (simp add: sd_ok_def)
  have ids: "take 8 (drop 5 (sd_view d)) = take 8 (drop (?p + 5) ?m)"
       "take 8 (drop 13 (sd_view d)) = take 8 (drop (?p + 13) ?m)"
    using False by (simp_all add: take_drop_view [OF assms])
  show ?thesis
    using False len assms
    by (simp add: num_of_serialized_def sd_size_def sd_begin_it_def get_byte_def length_sd_view
        hd_view id_read id_val uuid_of_iter_fits iter_plus_def sw_of_serialized_ok [OF text_ok]
        text_view ids num_parse_def add.assoc)
qed

lemma num_parse_wire: "num_parse (num_wire m) = m"
  by (simp add: num_parse_def num_wire_def uuid_wire_def word_of_le_le_bytes)

lemma num_wire_parse:
  assumes "21 \<le> length v" and "hd v = NUM_LAYER_ID"
  shows "num_wire (num_parse v) = v"
proof -
  from assms obtain w where v: "v = NUM_LAYER_ID # w" and w: "20 \<le> length w"
    by (cases v) auto
  have "le_bytes 4 (word_of_le (take 4 w) :: uint4b) = take 4 w"
    using le_bytes_word_of_le [of "take 4 w", where 'a = 32] w by (simp add: min_def)
  moreover have "le_bytes 8 (word_of_le (take 8 (drop n w)) :: uint8b) = take 8 (drop n w)"
    if "n + 8 \<le> length w" for n
  proof -
    from that have "length (take 8 (drop n w)) = 8" by simp
    then show ?thesis
      using le_bytes_word_of_le [of "take 8 (drop n w)", where 'a = 64] by simp
  qed
  ultimately have "num_wire (num_parse v) =
      NUM_LAYER_ID # take 4 w @ take 8 (drop 4 w) @ take 8 (drop 12 w) @ drop 20 w"
    using w by (simp add: num_wire_def num_parse_def uuid_wire_def v)
  also have "take 8 (drop 12 w) @ drop 20 w = drop 12 w"
    using append_take_drop_id [of 8 "drop 12 w"] by simp
  also have "take 8 (drop 4 w) @ drop 12 w = drop 4 w"
    using append_take_drop_id [of 8 "drop 4 w"] by simp
  finally show ?thesis by (simp add: v)
qed

lemma num_of_serialized_wire:
  "sd_ok d \<Longrightarrow> sd_view d = num_wire m \<Longrightarrow> num_of_serialized host d = Inr m"
  by (simp add: num_of_serialized_cases length_num_wire num_size_def num_parse_wire)
    (simp add: num_wire_def)

lemma num_of_serialized_Inr:
  assumes "sd_ok d" and "num_of_serialized host d = Inr m"
  shows "sd_view d = num_wire m"
  using assms by (auto simp: num_of_serialized_cases num_wire_parse split: if_splits)

lemma num_of_serialized_no_ub:
  "sd_ok d \<Longrightarrow> num_of_serialized host d \<noteq> Inl (Undefined u)"
  by (simp add: num_of_serialized_cases)

lemma num_wire_inject: "num_wire m = num_wire m' \<longleftrightarrow> m = m'"
  by (metis num_parse_wire)

end
