(* ===== verification/RefCounter.thy ===== *)
theory RefCounter
  imports Prelude
begin

text \<open>
  \<open>include/refcounter.hpp\<close>: a counter of references to an object that runs an
  action when a decrement brings it to zero.  The counter is an
  \<open>unsigned\<close> (32 bits, wrapping).  The contract its users rely on is the
  locale \<open>ref_counting\<close>: as long as fewer than \<open>2 ^ 32\<close> references live, the
  count is their number and the action runs exactly when the last one dies.
  The mutex of multithreaded builds makes each operation atomic; here each
  operation is one function.
\<close>

section \<open>ReferenceCounter\<close>

record ref_counter =
  rc_action :: bool
  reference_count :: "32 word"

text \<open>\<open>rc_action\<close> says whether an action was given to the constructor.\<close>

definition rc_ctor :: "bool \<Rightarrow> ref_counter" where
  "rc_ctor action = \<lparr>rc_action = action, reference_count = 0\<rparr>"

definition getRefCount :: "ref_counter \<Rightarrow> 32 word" where
  "getRefCount rc = reference_count rc"

definition increaseRefCount :: "ref_counter \<Rightarrow> ref_counter" where
  "increaseRefCount rc = rc\<lparr>reference_count := reference_count rc + 1\<rparr>"

text \<open>The second component says whether the action was executed.\<close>

definition decreaseRefCount :: "ref_counter \<Rightarrow> ref_counter \<times> bool" where
  "decreaseRefCount rc =
     (let rc' = rc\<lparr>reference_count := reference_count rc - 1\<rparr>
      in (rc', reference_count rc' \<le> 0 \<and> rc_action rc'))"

section \<open>CountedReference\<close>

definition counted_ref_ctor :: "ref_counter \<Rightarrow> ref_counter" where
  "counted_ref_ctor rc = increaseRefCount rc"

definition counted_ref_copy :: "ref_counter \<Rightarrow> ref_counter" where
  "counted_ref_copy rc = increaseRefCount rc"

definition counted_ref_dtor :: "ref_counter \<Rightarrow> ref_counter \<times> bool" where
  "counted_ref_dtor rc = decreaseRefCount rc"

datatype ref_op = RefConstruct | RefCopy | RefDestroy

fun rc_step :: "ref_op \<Rightarrow> ref_counter \<Rightarrow> ref_counter \<times> bool" where
  "rc_step RefConstruct rc = (counted_ref_ctor rc, False)"
| "rc_step RefCopy rc = (counted_ref_copy rc, False)"
| "rc_step RefDestroy rc = counted_ref_dtor rc"

section \<open>Runs of reference operations\<close>

text \<open>
  \<open>ref_run\<close> performs operations in order and lists which of them ran the
  action.  \<open>live\<close> is the number of references that exist afterwards, and
  \<open>last_dies\<close> lists which operations destroy the only remaining one.
  \<open>admissible\<close>: only existing references are copied or destroyed, and fewer
  than \<open>bound\<close> of them exist at any time.
\<close>

fun ref_run :: "(ref_op \<Rightarrow> 's \<Rightarrow> 's \<times> bool) \<Rightarrow> ref_op list \<Rightarrow> 's \<Rightarrow> 's \<times> bool list" where
  "ref_run step [] s = (s, [])"
| "ref_run step (op # ops) s =
     (let (s1, fired) = step op s; (s2, rest) = ref_run step ops s1 in (s2, fired # rest))"

fun live :: "nat \<Rightarrow> ref_op list \<Rightarrow> nat" where
  "live n [] = n"
| "live n (RefDestroy # ops) = live (n - 1) ops"
| "live n (_ # ops) = live (Suc n) ops"

fun last_dies :: "nat \<Rightarrow> ref_op list \<Rightarrow> bool list" where
  "last_dies n [] = []"
| "last_dies n (RefDestroy # ops) = (n = 1) # last_dies (n - 1) ops"
| "last_dies n (_ # ops) = False # last_dies (Suc n) ops"

fun admissible :: "nat \<Rightarrow> nat \<Rightarrow> ref_op list \<Rightarrow> bool" where
  "admissible bound n [] = True"
| "admissible bound n (RefDestroy # ops) = (0 < n \<and> admissible bound (n - 1) ops)"
| "admissible bound n (RefCopy # ops) = (0 < n \<and> Suc n < bound \<and> admissible bound (Suc n) ops)"
| "admissible bound n (RefConstruct # ops) = (Suc n < bound \<and> admissible bound (Suc n) ops)"

locale ref_counting =
  fixes step :: "ref_op \<Rightarrow> 's \<Rightarrow> 's \<times> bool"
    and count_of :: "'s \<Rightarrow> nat"
    and armed :: "'s \<Rightarrow> bool"
    and bound :: nat
  assumes acquire_count:
      "op \<noteq> RefDestroy \<Longrightarrow> Suc (count_of s) < bound \<Longrightarrow> count_of (fst (step op s)) = Suc (count_of s)"
    and acquire_quiet: "op \<noteq> RefDestroy \<Longrightarrow> \<not> snd (step op s)"
    and release_count: "0 < count_of s \<Longrightarrow> count_of (fst (step RefDestroy s)) = count_of s - 1"
    and release_fires:
      "0 < count_of s \<Longrightarrow> armed s \<Longrightarrow> snd (step RefDestroy s) \<longleftrightarrow> count_of s = 1"
    and step_armed: "armed (fst (step op s)) = armed s"
begin

lemma run_spec:
  "admissible bound (count_of s) ops \<Longrightarrow> armed s \<Longrightarrow>
   count_of (fst (ref_run step ops s)) = live (count_of s) ops \<and>
   snd (ref_run step ops s) = last_dies (count_of s) ops"
proof (induction ops arbitrary: s)
  case Nil
  then show ?case by simp
next
  case (Cons op ops)
  obtain s1 fired where st: "step op s = (s1, fired)" by (cases "step op s")
  have armed1: "armed s1" using step_armed [of op s] Cons.prems(2) st by simp
  show ?case
  proof (cases "op = RefDestroy")
    case True
    with Cons.prems have pos: "0 < count_of s" by simp
    from release_count [OF pos] release_fires [OF pos Cons.prems(2)] st True
    have "count_of s1 = count_of s - 1" "fired \<longleftrightarrow> count_of s = 1" by simp_all
    with True Cons.IH [of s1] Cons.prems armed1 st show ?thesis by (simp add: case_prod_beta)
  next
    case False
    with Cons.prems have "Suc (count_of s) < bound" by (cases op) simp_all
    from acquire_count [OF False this] acquire_quiet [OF False, of s] st
    have "count_of s1 = Suc (count_of s)" "\<not> fired" by simp_all
    with False Cons.IH [of s1] Cons.prems armed1 st show ?thesis
      by (cases op) (simp_all add: case_prod_beta)
  qed
qed

end

lemmas rc_defs = rc_ctor_def getRefCount_def increaseRefCount_def decreaseRefCount_def
  counted_ref_ctor_def counted_ref_copy_def counted_ref_dtor_def

lemma unat_minus_one_word: "0 < unat (x :: 32 word) \<Longrightarrow> unat (x - 1) = unat x - 1"
  by (metis unat_0 less_numeral_extra(3) unat_minus_one)

interpretation rc: ref_counting rc_step "\<lambda>rc. unat (reference_count rc)" rc_action "2 ^ 32"
proof unfold_locales
  fix op :: ref_op and s :: ref_counter
  assume op: "op \<noteq> RefDestroy" and lt: "Suc (unat (reference_count s)) < 2 ^ 32"
  have "unat (reference_count s + 1) = Suc (unat (reference_count s))"
    using lt by (simp add: unat_word_ariths)
  with op show "unat (reference_count (fst (rc_step op s))) = Suc (unat (reference_count s))"
    by (cases op) (simp_all add: rc_defs)
next
  fix op :: ref_op and s :: ref_counter
  assume "op \<noteq> RefDestroy"
  then show "\<not> snd (rc_step op s)" by (cases op) simp_all
next
  fix s :: ref_counter
  assume "0 < unat (reference_count s)"
  then show "unat (reference_count (fst (rc_step RefDestroy s))) = unat (reference_count s) - 1"
    by (simp add: rc_defs unat_minus_one_word)
next
  fix s :: ref_counter
  assume pos: "0 < unat (reference_count s)" and "rc_action s"
  then show "snd (rc_step RefDestroy s) \<longleftrightarrow> unat (reference_count s) = 1"
    by (simp add: rc_defs word_le_nat_alt unat_minus_one_word) linarith
next
  fix op :: ref_op and s :: ref_counter
  show "rc_action (fst (rc_step op s)) = rc_action s"
    by (cases op) (simp_all add: rc_defs)
qed

text \<open>A counter that counts the elements of a collection keeps doing so, modulo \<open>2 ^ 32\<close>.\<close>

lemma increase_of_nat:
  "reference_count rc = of_nat n \<Longrightarrow> reference_count (increaseRefCount rc) = of_nat (Suc n)"
  by (simp add: rc_defs)

lemma decrease_of_nat:
  "reference_count rc = of_nat (Suc n) \<Longrightarrow> reference_count (fst (decreaseRefCount rc)) = of_nat n"
  by (simp add: rc_defs)

lemma of_nat_32_eq_0: "n < 2 ^ 32 \<Longrightarrow> (of_nat n :: 32 word) = 0 \<longleftrightarrow> n = 0"
proof -
  assume "n < 2 ^ 32"
  then have "unat (of_nat n :: 32 word) = n" by (simp add: unat_of_nat take_bit_nat_eq_self)
  then show ?thesis by (simp flip: unat_eq_0)
qed

lemma rc_action_simps [simp]:
  "rc_action (increaseRefCount rc) = rc_action rc"
  "rc_action (fst (decreaseRefCount rc)) = rc_action rc"
  by (simp_all add: rc_defs)

end
