(* ===== verification/WireProps.thy ===== *)
theory WireProps
  imports NearTypes RefCounter
begin

text \<open>
  The properties of the byte order conversion, the message layers and the
  reference counter.
\<close>

section \<open>Byte order\<close>

text \<open>
  C23. The specialisations of \<open>reversebytes\<close> with shifts and masks, the signed
  ones included, compute what the generic template does by reversing the bytes
  of the object, on either kind of host, and undo themselves.
\<close>

theorem reversebytes_specialisations:
  "reversebytes_uint2b x = reversebytes host x \<and> reversebytes_uint4b y = reversebytes host y \<and>
   word_of_int (reversebytes_int2b i) = (reversebytes host (word_of_int i) :: uint2b) \<and>
   word_of_int (reversebytes_int4b i) = (reversebytes host (word_of_int i) :: uint4b) \<and>
   reversebytes_uint2b (reversebytes_uint2b x) = x \<and> reversebytes_uint4b (reversebytes_uint4b y) = y"
  by (simp add: reversebytes_uint2b_generic [of _ host] reversebytes_uint4b_generic [of _ host]
      reversebytes_int2b_def reversebytes_int4b_def reversebytes_involution)

text \<open>
  C22. The bytes a converted integer occupies are the same on every host, the
  least significant first, and another host of either byte order converts them
  back to the same integer.
\<close>

theorem network_byte_order:
  "object_bytes host (netbo_uint2b host x2) = le_bytes 2 x2 \<and>
   object_bytes host (netbo_uint4b host x4) = le_bytes 4 x4 \<and>
   object_bytes host (netbo_uint8b host x8) = le_bytes 8 x8 \<and>
   hostbo_uint2b host' (object_of_bytes host' (object_bytes host (netbo_uint2b host x2))) = x2 \<and>
   hostbo_uint4b host' (object_of_bytes host' (object_bytes host (netbo_uint4b host x4))) = x4 \<and>
   hostbo_uint8b host' (object_of_bytes host' (object_bytes host (netbo_uint8b host x8))) = x8"
  by (simp only: wire_uint2b wire_uint4b wire_uint8b)
    (simp add: netbo_generic to_hostbo_object_of_bytes word_of_le_le_bytes)

text \<open>
  What \<open>writebytes\<close> puts into a buffer \<open>readbytes\<close> gets back from the same
  place, for integers of any number of whole bytes; the rest of the buffer stays
  as it is and both iterators end behind the value.
\<close>

lemma write_read_roundtrip:
  fixes x :: "'a::len word"
  assumes "8 dvd LENGTH('a)" and "pos + size_of x \<le> length buf"
  shows "\<exists>buf'. writebytes host (buf, pos) x = Inr (buf', pos + size_of x) \<and>
     readbytes host TYPE('a) (buf', pos) = Inr (x, (buf', pos + size_of x)) \<and>
     take pos buf' = take pos buf \<and> drop (pos + size_of x) buf' = drop (pos + size_of x) buf \<and>
     length buf' = length buf"
proof -
  let ?buf = "take pos buf @ object_bytes host x @ drop (pos + size_of x) buf"
  have "writebytes host (buf, pos) x = Inr (?buf, pos + size_of x)"
    using assms(2) by (simp add: writebytes_def put_bytes_fits)
  moreover have "readbytes host TYPE('a) (?buf, pos) = Inr (x, (?buf, pos + size_of x))"
    using assms by (simp add: readbytes_def get_bytes_fits size_of_def object_of_object_bytes)
  ultimately show ?thesis using assms(2) by auto
qed

section \<open>Layers\<close>

text \<open>
  Decoding a header never fails on four bytes other than by refusing
  them; the accepted headers are exactly the encodings of sizes, each by one
  sequence of bytes.
\<close>

lemma headers_decode_uniquely:
  assumes "length hdr = 4"
  shows "(decodeHeader host (hdr, 0) = Inr h \<longleftrightarrow> hdr = segm_header_bytes (packetsize h)) \<and>
     ((\<forall>h. decodeHeader host (hdr, 0) \<noteq> Inr h) \<longrightarrow>
        decodeHeader host (hdr, 0) = Inl (Throw InvalidHeaderError))"
  using decodeHeader_inverse [OF assms] decodeHeader_header_bytes [of host "packetsize h" "[]"]
    decodeHeader_four [OF assms, of host]
  by (auto split: if_splits)

text \<open>
  C24. A user message in a segmentation layer serialises into exactly the
  vector of \<open>size()\<close> bytes allocated for it, and a receiver of either byte order
  decodes from it the size of the packet modulo \<open>2 ^ 16\<close>.
\<close>

theorem packets_fill_their_buffer:
  assumes "num_size m + 4 \<le> vector_max_size"
  shows "\<exists>packet. serialize (segm_size num_size) (segm_fillSerialized host num_size (num_fillSerialized host)) m
         = Inr packet \<and>
     length packet = segm_size num_size m \<and>
     decodeHeader host' (packet, 0) = Inr \<lparr>packetsize = word_of_nat (length packet)\<rparr> \<and>
     unat (word_of_nat (length packet) :: uint2b) = length packet mod 65536"
proof -
  have "length (segm_wire num_wire m) = num_size m + 4"
    by (simp add: length_segm_wire length_num_wire)
  with num.segm_serialize [OF TrueI assms, of host] num.segm_decode [of host' m] show ?thesis
    by (simp add: length_num_wire segm_size_def segm_header_length_def unat_uint2b)
qed

lemma packets_fill_their_buffer_witness:
  "\<exists>packet. serialize (segm_size num_size) (segm_fillSerialized BigEndian num_size (num_fillSerialized BigEndian))
       (num_of_stringwrap \<lparr>sw_message_string = [0x68]\<rparr> user_id_none user_id_none 1) = Inr packet \<and>
     length packet = 26"
proof -
  let ?m = "num_of_stringwrap \<lparr>sw_message_string = [0x68]\<rparr> user_id_none user_id_none 1"
  have "num_size ?m = 22" by (simp add: num_of_stringwrap_def num_size_def sw_size_def char_size_def)
  with packets_fill_their_buffer [of ?m BigEndian LittleEndian] show ?thesis
    by (auto simp: vector_max_size_def segm_size_def segm_header_length_def)
qed

text \<open>
  C20. Serialising a user message on one host and constructing one from the
  bytes on another gives the message back, whatever the byte orders; messages
  with the same bytes are the same message.
\<close>

theorem messages_roundtrip:
  assumes "num_size m \<le> vector_max_size"
  shows "\<exists>bytes. serialize num_size (num_fillSerialized host) m = Inr bytes \<and>
     num_of_serialized host' (sd_of_block bytes) = Inr m \<and>
     (\<forall>m'. serialize num_size (num_fillSerialized host') m' = Inr bytes \<longrightarrow> m' = m)"
proof -
  have same: "m' = m" if "serialize num_size (num_fillSerialized host') m' = Inr (num_wire m)" for m'
  proof (cases "num_size m' \<le> vector_max_size")
    case True
    with num.serialize_wire [OF TrueI True, of host'] that show ?thesis by (simp add: num_wire_inject)
  next
    case False
    with that show ?thesis by (simp add: serialize_def vector_ctor_def)
  qed
  with num.serialize_wire [OF TrueI assms, of host]
    num_of_serialized_wire [of "sd_of_block (num_wire m)" m host']
  show ?thesis by simp
qed

lemma messages_roundtrip_witness:
  "\<exists>bytes. serialize num_size (num_fillSerialized BigEndian)
       (num_of_stringwrap \<lparr>sw_message_string = [0x68]\<rparr> user_id_none user_id_none 1) = Inr bytes \<and>
     num_of_serialized LittleEndian (sd_of_block bytes) =
       Inr (num_of_stringwrap \<lparr>sw_message_string = [0x68]\<rparr> user_id_none user_id_none 1)"
proof -
  let ?m = "num_of_stringwrap \<lparr>sw_message_string = [0x68]\<rparr> user_id_none user_id_none 1"
  have "num_size ?m \<le> vector_max_size"
    by (simp add: num_of_stringwrap_def num_size_def sw_size_def char_size_def vector_max_size_def)
  from messages_roundtrip [OF this, of BigEndian LittleEndian] show ?thesis by blast
qed

text \<open>
  C21. Constructing a user message from received data has three outcomes and no
  other: too few bytes for a header, a foreign layer identifier, or a message,
  which then serialises to exactly the received bytes.
\<close>

theorem parsing_outcomes:
  assumes "sd_ok d"
  shows "num_of_serialized host d =
       (if sd_size d < 21 then Inl (Throw UndersizedPacketError)
        else if hd (sd_view d) \<noteq> 0x41 then Inl (Throw InvalidHeaderError)
        else Inr (num_parse (sd_view d))) \<and>
     (\<forall>m. num_of_serialized host d = Inr m \<longrightarrow> num_wire m = sd_view d)"
  using num_of_serialized_cases [OF assms, of host] num_of_serialized_Inr [OF assms, of host]
  by (simp add: length_sd_view [OF assms] sd_size_def NUM_LAYER_ID_def)

lemma parsing_outcomes_witness:
  "num_of_serialized LittleEndian (sd_of_block [0x41, 0]) = Inl (Throw UndersizedPacketError)"
  using parsing_outcomes [of "sd_of_block [0x41, 0]" LittleEndian] by simp

text \<open>
  C40. Copy assignment of a \<open>SerializedData\<close> copies the data into a vector
  allocated with the size of the assigned object: it is right when the copied
  data are as large, leaves zeros behind smaller ones, and writes outside the
  vector when they are larger.
\<close>

theorem copy_assignment_overflows:
  assumes "sd_ok other" and "sd_datasize self \<le> vector_max_size"
  shows "(sd_assign False self other = Inl (Undefined WriteOutOfBounds) \<longleftrightarrow> sd_size self < sd_size other) \<and>
     (sd_size other \<le> sd_size self \<longrightarrow>
        (\<exists>d. sd_assign False self other = Inr d \<and> sd_view d = sd_view other \<and>
           sd_memblock d = sd_view other @ replicate (sd_size self - sd_size other) 0))"
proof -
  have "take (sd_datasize other) (sd_view other @ replicate k 0) = sd_view other" for k
    using length_sd_view [OF assms(1)] by simp
  then have "sd_view (self\<lparr>sd_memblock := sd_view other @ replicate k 0, sd_begin := 0,
      sd_datasize := sd_datasize other\<rparr>) = sd_view other" for k
    by (simp add: sd_view_def [of "self\<lparr>sd_memblock := _, sd_begin := _, sd_datasize := _\<rparr>"])
  with sd_assign_result [OF assms] show ?thesis by (simp add: sd_size_def)
qed

lemma copy_assignment_overflows_witness:
  "sd_assign False (sd_of_block [1]) (sd_of_block [2, 3]) = Inl (Undefined WriteOutOfBounds)"
  using copy_assignment_overflows [of "sd_of_block [2, 3]" "sd_of_block [1]"]
  by (simp add: sd_of_block_def vector_max_size_def sd_size_def sd_ok_def)

text \<open>
  A string layer constructed from received data holds exactly these bytes
  and serialises to them again; no block of whole bytes is refused as unaligned.
\<close>

lemma strings_roundtrip:
  assumes "sd_ok d" and "sd_size d \<le> vector_max_size"
  shows "\<exists>sw. sw_of_serialized host d = Inr sw \<and> sw_message_string sw = sd_view d \<and>
     serialize sw_size (sw_fillSerialized host') sw = Inr (sd_view d)"
proof -
  have "sw_size \<lparr>sw_message_string = sd_view d\<rparr> = sd_size d"
    using assms(1) by (simp add: sw_size_def char_size_def length_sd_view sd_size_def)
  with sw.serialize_wire [of "\<lparr>sw_message_string = sd_view d\<rparr>" host'] assms
  show ?thesis by (simp add: sw_of_serialized_ok)
qed

section \<open>References\<close>

text \<open>
  C26. Over any sequence of constructions, copies and destructions of counted
  references, with fewer than \<open>2 ^ 32\<close> of them at a time, the counter is the
  number of references alive, and its action runs exactly when the last one
  dies, each time that happens.
\<close>

theorem references_are_counted:
  assumes "admissible (2 ^ 32) 0 ops"
  shows "unat (getRefCount (fst (ref_run rc_step ops (rc_ctor True)))) = live 0 ops \<and>
     snd (ref_run rc_step ops (rc_ctor True)) = last_dies 0 ops"
  using rc.run_spec [of "rc_ctor True" ops] assms by (simp add: rc_defs)

lemma references_are_counted_witness:
  "snd (ref_run rc_step [RefConstruct, RefCopy, RefDestroy, RefDestroy] (rc_ctor True)) =
     [False, False, False, True]"
  using references_are_counted [of "[RefConstruct, RefCopy, RefDestroy, RefDestroy]"] by simp

end
