(* ===== verification/Framing.thy ===== *)
theory Framing
  imports NearTypes
begin

text \<open>
  Packets in a byte stream.  TCP delivers bytes, not packets: the receivers cut
  the stream with their reads of a header and of a body.  This theory holds
  what a header says, a reference parser \<open>frames\<close> for streams, and the locale
  \<open>packet_reader\<close>, the contract of a receiver under which it finds in a
  stream exactly the packets the parser finds.
\<close>

section \<open>Headers\<close>

definition packet_length :: "byte list \<Rightarrow> nat" where
  "packet_length hdr = unat (hdr ! 1) + 256 * unat (hdr ! 2)"

lemma unat_word_of_le_two: "unat (word_of_le [a, b] :: uint2b) = unat a + 256 * unat b"
proof -
  have small: "unat a < 256" "unat b < 256"
    using unsigned_less [of a] unsigned_less [of b] by simp_all
  let ?a = "ucast a :: uint2b" and ?b = "push_bit 8 (ucast b) :: uint2b"
  have "?a AND ?b = 0" by (rule bit_eqI) (auto simp: bit_simps dest: bit_imp_le_length)
  then have "word_of_le [a, b] = ?a + ?b"
    using word_plus_and_or [of ?a ?b] by simp
  moreover have "unat ?a = unat a" "unat ?b = 256 * unat b"
    using small by (simp_all add: unsigned_ucast_eq unat_word_ariths push_bit_eq_mult take_bit_nat_eq_self)
  ultimately show ?thesis using small by (simp add: unat_word_ariths)
qed

text \<open>A valid header is determined by its packet length.\<close>

lemma segm_header_bytes_packet_length:
  assumes "length hdr = 4" and "hdr ! 0 = 0x80" and "hdr ! 3 = 0"
  shows "segm_header_bytes (of_nat (packet_length hdr)) = hdr"
proof -
  have "(of_nat (packet_length hdr) :: uint2b) = word_of_le [hdr ! 1, hdr ! 2]"
    by (simp add: packet_length_def flip: unat_word_of_le_two)
  moreover have "le_bytes 2 (word_of_le [hdr ! 1, hdr ! 2] :: uint2b) = [hdr ! 1, hdr ! 2]"
    using le_bytes_word_of_le [of "[hdr ! 1, hdr ! 2]", where 'a = 16] by (simp add: numeral_eq_Suc)
  moreover have "hdr = [hdr ! 0, hdr ! 1, hdr ! 2, hdr ! 3]"
    using assms(1) by (auto simp: numeral_eq_Suc length_Suc_conv)
  ultimately show ?thesis
    using assms(2,3) by (simp add: segm_header_bytes_def SEGM_LAYER_ID_def)
qed

text \<open>What a received header announces: the size of the body, or why it is refused.\<close>

definition header_verdict :: "byte list \<Rightarrow> string + nat" where
  "header_verdict hdr =
     (let psize = unat (word_of_le [hdr ! 1, hdr ! 2] :: uint2b) in
      if hdr ! 0 \<noteq> 0x80 \<or> hdr ! 3 \<noteq> 0 then Inl (exn_what InvalidHeaderError)
      else if 0x8FFF < psize then Inl ''Oversized packet.''
      else if psize < 4 then Inl (exn_what LengthError)
      else Inr (psize - 4))"

lemma packet_split:
  assumes "num_size msg + 4 \<le> 0x8FFF"
  defines "packet \<equiv> segm_wire num_wire msg"
  shows "length packet = num_size msg + 4"
    and "take 4 packet = segm_header_bytes (word_of_nat (num_size msg + 4))"
    and "drop 4 packet = num_wire msg" and "take 4 packet @ drop 4 packet = packet"
  by (simp_all add: packet_def segm_wire_def segm_header_length_def length_num_wire)

lemma header_of_size:
  assumes "n < 65536"
  shows "segm_header_bytes (word_of_nat n) ! 0 = 0x80" "segm_header_bytes (word_of_nat n) ! 3 = 0"
    and "packet_length (segm_header_bytes (word_of_nat n)) = n"
    and "header_verdict (segm_header_bytes (word_of_nat n)) =
      (if 0x8FFF < n then Inl ''Oversized packet.'' else if n < 4 then Inl (exn_what LengthError)
       else Inr (n - 4))"
proof -
  let ?h = "segm_header_bytes (word_of_nat n)"
  show h0: "?h ! 0 = 0x80" and h3: "?h ! 3 = 0"
    by (simp_all add: segm_header_bytes_def SEGM_LAYER_ID_def le_bytes_2)
  have "word_of_le [?h ! 1, ?h ! 2] = (word_of_nat n :: uint2b)"
    using decodeHeader_header_bytes [of LittleEndian "word_of_nat n" "[]"]
      decodeHeader_four [of ?h LittleEndian] h0 h3
    by simp
  then have size: "unat (word_of_le [?h ! 1, ?h ! 2] :: uint2b) = n"
    using assms by (simp add: unat_uint2b del: word_of_le.simps)
  then show "packet_length ?h = n" by (simp add: packet_length_def flip: unat_word_of_le_two del: word_of_le.simps)
  show "header_verdict ?h =
      (if 0x8FFF < n then Inl ''Oversized packet.'' else if n < 4 then Inl (exn_what LengthError)
       else Inr (n - 4))"
    by (simp add: header_verdict_def size h0 h3 Let_def del: word_of_le.simps One_nat_def)
qed

lemma header_verdict_cases:
  assumes "length hdr = 4"
  shows "header_verdict hdr =
     (if hdr ! 0 \<noteq> 0x80 \<or> hdr ! 3 \<noteq> 0 then Inl (exn_what InvalidHeaderError)
      else if 0x8FFF < packet_length hdr then Inl ''Oversized packet.''
      else if packet_length hdr < 4 then Inl (exn_what LengthError)
      else Inr (packet_length hdr - 4))"
  by (simp add: header_verdict_def Let_def unat_word_of_le_two packet_length_def del: word_of_le.simps)

lemma header_verdict_Inr:
  assumes "length hdr = 4" and "header_verdict hdr = Inr n"
  shows "hdr ! 0 = 0x80" "hdr ! 3 = 0" "packet_length hdr = n + 4" "n + 4 \<le> 0x8FFF"
  using assms by (auto simp: header_verdict_cases split: if_splits)

section \<open>Streams of packets\<close>

definition framed :: "byte list \<Rightarrow> bool" where
  "framed p \<longleftrightarrow> 4 \<le> length p \<and> header_verdict (take 4 p) = Inr (length p - 4)"

text \<open>How a stream ends: within a packet, or at a header that is refused.\<close>

datatype stream_end =
    Incomplete "byte list"
  | Refused string "byte list"

primrec unread :: "stream_end \<Rightarrow> byte list" where
  "unread (Incomplete r) = r"
| "unread (Refused why r) = r"

function frames :: "byte list \<Rightarrow> byte list list \<times> stream_end" where
  "frames bs =
     (if length bs < 4 then ([], Incomplete bs)
      else case header_verdict (take 4 bs) of
        Inl why \<Rightarrow> ([], Refused why bs)
      | Inr n \<Rightarrow>
          if length bs < n + 4 then ([], Incomplete bs)
          else let (ps, e) = frames (drop (n + 4) bs) in (take (n + 4) bs # ps, e))"
  by pat_completeness auto
termination
  by (relation "measure length") auto

declare frames.simps [simp del]

text \<open>The parser loses nothing: the packets and the unread rest are the stream.\<close>

lemma frames_complete:
  "concat (fst (frames bs)) @ unread (snd (frames bs)) = bs \<and> list_all framed (fst (frames bs))"
proof (induction bs rule: frames.induct)
  case (1 bs)
  consider (short) "length bs < 4" | (bad) why where "\<not> length bs < 4" "header_verdict (take 4 bs) = Inl why"
    | (part) n where "\<not> length bs < 4" "header_verdict (take 4 bs) = Inr n" "length bs < n + 4"
    | (packet) n where "\<not> length bs < 4" "header_verdict (take 4 bs) = Inr n" "\<not> length bs < n + 4"
    by (cases "header_verdict (take 4 bs)") auto
  then show ?case
  proof cases
    case packet
    from 1 [OF packet] have IH: "concat (fst (frames (drop (n + 4) bs))) @ unread (snd (frames (drop (n + 4) bs))) =
        drop (n + 4) bs" "list_all framed (fst (frames (drop (n + 4) bs)))" by simp_all
    have "framed (take (n + 4) bs)" using packet by (simp add: framed_def min_def)
    with packet IH show ?thesis
      by (subst (1 2 3) frames.simps) (simp add: case_prod_beta Let_def)
  qed (subst (1 2 3) frames.simps, simp)+
qed

lemma frames_packet:
  assumes "framed p"
  shows "frames (p @ bs) = (p # fst (frames bs), snd (frames bs))"
proof -
  from assms have "\<not> length (p @ bs) < 4" "header_verdict (take 4 (p @ bs)) = Inr (length p - 4)"
      "length p - 4 + 4 = length p"
    by (simp_all add: framed_def)
  then show ?thesis by (subst frames.simps) (simp add: case_prod_beta Let_def)
qed

text \<open>What is left of a stream after its packets.\<close>

lemma frames_end:
  "case snd (frames bs) of
     Incomplete r \<Rightarrow> length r < 4 \<or>
       (\<exists>k. \<not> length r < 4 \<and> header_verdict (take 4 r) = Inr k \<and> length r < k + 4)
   | Refused why r \<Rightarrow> 4 \<le> length r \<and> header_verdict (take 4 r) = Inl why"
proof (induction bs rule: frames.induct)
  case (1 bs)
  then show ?case
    by (subst frames.simps) (auto simp: case_prod_beta Let_def split: sum.split)
qed

text \<open>Packets that are sent one after the other are found again.\<close>

lemma frames_concat:
  "list_all framed ps \<Longrightarrow> frames (concat ps @ bs) = (ps @ fst (frames bs), snd (frames bs))"
  by (induction ps) (simp_all add: frames_packet)

lemma frames_nil [simp]: "frames [] = ([], Incomplete [])"
  by (simp add: frames.simps)

lemma frames_packets: "list_all framed ps \<Longrightarrow> frames (concat ps) = (ps, Incomplete [])"
  using frames_concat [of ps "[]"] by simp

lemma framed_segm_wire:
  assumes "length (w m) + 4 \<le> 0x8FFF"
  shows "framed (segm_wire w m)"
  using header_of_size(4) [of "length (w m) + 4"] assms
  by (simp add: framed_def length_segm_wire) (simp add: segm_wire_def segm_header_length_def)

section \<open>A receiver fed with a stream\<close>

text \<open>
  \<open>want\<close> is the size of the read a receiver has pending on the stream, if any;
  \<open>arrive\<close> completes that read.  \<open>feeds\<close>: the stream \<open>bs\<close> arrives at a receiver
  in state \<open>s\<close>, which completes one read after the other; it ends with the result
  \<open>r\<close> and leaves the bytes \<open>rest\<close> unread.
\<close>

inductive feeds ::
  "('s \<Rightarrow> nat option) \<Rightarrow> (byte list \<Rightarrow> 's \<Rightarrow> 's result) \<Rightarrow> byte list \<Rightarrow> 's \<Rightarrow> 's result \<Rightarrow> byte list \<Rightarrow> bool"
  for want arrive where
  feeds_stop: "(\<And>n. want s = Some n \<Longrightarrow> length bs < n) \<Longrightarrow> feeds want arrive bs s (Inr s) bs"
| feeds_read: "want s = Some n \<Longrightarrow> n \<le> length bs \<Longrightarrow> arrive (take n bs) s = Inr s' \<Longrightarrow>
    feeds want arrive (drop n bs) s' r rest \<Longrightarrow> feeds want arrive bs s r rest"
| feeds_fail: "want s = Some n \<Longrightarrow> n \<le> length bs \<Longrightarrow> arrive (take n bs) s = Inl f \<Longrightarrow>
    feeds want arrive bs s (Inl f) (drop n bs)"

text \<open>A stream has one outcome.\<close>

lemma feeds_unique:
  "feeds want arrive bs s r rest \<Longrightarrow> feeds want arrive bs s r' rest' \<Longrightarrow> r' = r \<and> rest' = rest"
proof (induction arbitrary: r' rest' rule: feeds.induct)
  case (feeds_stop s bs)
  from feeds_stop(2) show ?case
  proof (cases rule: feeds.cases)
    case (feeds_read n s')
    with feeds_stop(1) [OF feeds_read(1)] show ?thesis by simp
  next
    case (feeds_fail n f)
    with feeds_stop(1) [OF feeds_fail(3)] show ?thesis by simp
  qed simp
next
  case (feeds_read s n bs s' r rest)
  from feeds_read.prems show ?case
  proof (cases rule: feeds.cases)
    case feeds_stop
    with feeds_read.hyps show ?thesis using feeds_stop(3) by fastforce
  next
    case (feeds_read m s1)
    with feeds_read.hyps feeds_read.IH show ?thesis by simp
  next
    case (feeds_fail m f)
    with feeds_read.hyps show ?thesis by simp
  qed
next
  case (feeds_fail s n bs f)
  from feeds_fail.prems show ?case
  proof (cases rule: feeds.cases)
    case feeds_stop
    with feeds_fail.hyps show ?thesis using feeds_stop(3) by fastforce
  qed (use feeds_fail.hyps in simp_all)
qed

fun chain :: "('p \<Rightarrow> 's \<Rightarrow> 's \<Rightarrow> bool) \<Rightarrow> 'p list \<Rightarrow> 's \<Rightarrow> 's \<Rightarrow> bool" where
  "chain R [] s t = (s = t)"
| "chain R (p # ps) s t = (\<exists>u. R p s u \<and> chain R ps u t)"

text \<open>
  The contract of a receiver.  \<open>awaiting n\<close>: it waits for a header and can take
  \<open>n\<close> more packets; \<open>consumed p\<close>: what taking the packet \<open>p\<close> does;
  \<open>refused hdr\<close>: what a header that is refused leads to.
\<close>

locale packet_reader =
  fixes want :: "'s \<Rightarrow> nat option"
    and arrive :: "byte list \<Rightarrow> 's \<Rightarrow> 's result"
    and awaiting :: "nat \<Rightarrow> 's \<Rightarrow> bool"
    and ok :: "byte list \<Rightarrow> bool"
    and consumed :: "byte list \<Rightarrow> 's \<Rightarrow> 's \<Rightarrow> bool"
    and refused :: "byte list \<Rightarrow> 's \<Rightarrow> 's result \<Rightarrow> bool"
  assumes want_header: "awaiting n s \<Longrightarrow> want s = Some 4"
    and header_ok: "awaiting n s \<Longrightarrow> length hdr = 4 \<Longrightarrow> header_verdict hdr = Inr k \<Longrightarrow>
      \<exists>s1. arrive hdr s = Inr s1 \<and> want s1 = Some k"
    and body_ok: "awaiting (Suc n) s \<Longrightarrow> length hdr = 4 \<Longrightarrow> header_verdict hdr = Inr (length body) \<Longrightarrow>
      ok (hdr @ body) \<Longrightarrow> arrive hdr s = Inr s1 \<Longrightarrow>
      \<exists>s2. arrive body s1 = Inr s2 \<and> awaiting n s2 \<and> consumed (hdr @ body) s s2"
    and header_bad: "awaiting n s \<Longrightarrow> length hdr = 4 \<Longrightarrow> header_verdict hdr = Inl why \<Longrightarrow>
      refused hdr s (arrive hdr s)"
begin

lemma packet_feeds:
  assumes "awaiting (Suc n) s" and "framed p" and "ok p"
  shows "\<exists>t. awaiting n t \<and> consumed p s t \<and>
     (\<forall>bs r rest. feeds want arrive bs t r rest \<longrightarrow> feeds want arrive (p @ bs) s r rest)"
proof -
  let ?hdr = "take 4 p" and ?body = "drop 4 p"
  from assms(2) have hdr: "length ?hdr = 4" "header_verdict ?hdr = Inr (length ?body)" and p: "?hdr @ ?body = p"
    by (simp_all add: framed_def)
  from header_ok [OF assms(1) hdr] obtain s1 where s1: "arrive ?hdr s = Inr s1" "want s1 = Some (length ?body)"
    by blast
  from body_ok [OF assms(1) hdr _ s1(1)] assms(3) p obtain s2 where
      s2: "arrive ?body s1 = Inr s2" "awaiting n s2" "consumed p s s2" by auto
  have "feeds want arrive (p @ bs) s r rest" if "feeds want arrive bs s2 r rest" for bs r rest
  proof (rule feeds_read [where n = 4 and s' = s1])
    show "want s = Some 4" by (rule want_header [OF assms(1)])
    show "4 \<le> length (p @ bs)" using hdr(1) by simp
    show "arrive (take 4 (p @ bs)) s = Inr s1" using s1(1) hdr(1) by simp
    show "feeds want arrive (drop 4 (p @ bs)) s1 r rest"
    proof (rule feeds_read [where n = "length ?body" and s' = s2])
      show "feeds want arrive (drop (length ?body) (drop 4 (p @ bs))) s2 r rest"
        using that hdr(1) by simp
    qed (use s1 s2 hdr(1) in simp_all)
  qed
  with s2 show ?thesis by blast
qed

text \<open>Complete packets are consumed one after the other, whatever follows them.\<close>

lemma packets_feed:
  "awaiting (length ps + n) s \<Longrightarrow> list_all framed ps \<Longrightarrow> list_all ok ps \<Longrightarrow>
   \<exists>t. awaiting n t \<and> chain consumed ps s t \<and>
     (\<forall>bs r rest. feeds want arrive bs t r rest \<longrightarrow> feeds want arrive (concat ps @ bs) s r rest)"
proof (induction ps arbitrary: s)
  case Nil
  then show ?case by auto
next
  case (Cons p ps)
  from packet_feeds [of "length ps + n" s p] Cons.prems obtain u where
      u: "awaiting (length ps + n) u" "consumed p s u"
        "\<forall>bs r rest. feeds want arrive bs u r rest \<longrightarrow> feeds want arrive (p @ bs) s r rest"
    by auto
  from Cons.IH [OF u(1)] Cons.prems obtain t where
      t: "awaiting n t" "chain consumed ps u t"
        "\<forall>bs r rest. feeds want arrive bs t r rest \<longrightarrow> feeds want arrive (concat ps @ bs) u r rest"
    by auto
  with u show ?case by auto
qed

lemma partial_header_feeds: "awaiting n s \<Longrightarrow> length bs < 4 \<Longrightarrow> feeds want arrive bs s (Inr s) bs"
  by (rule feeds_stop) (auto dest: want_header)

lemma partial_body_feeds:
  assumes "awaiting n s" and "\<not> length bs < 4" and "header_verdict (take 4 bs) = Inr k" and "length bs < k + 4"
  shows "\<exists>t. arrive (take 4 bs) s = Inr t \<and> want t = Some k \<and> feeds want arrive bs s (Inr t) (drop 4 bs)"
proof -
  from header_ok [OF assms(1) _ assms(3)] assms(2) obtain t where
      t: "arrive (take 4 bs) s = Inr t" "want t = Some k" by auto
  have "feeds want arrive (drop 4 bs) t (Inr t) (drop 4 bs)"
    by (rule feeds_stop) (use t(2) assms(2,4) in simp)
  with feeds_read [where want = want and arrive = arrive, OF want_header [OF assms(1)] _ t(1)] assms(2) t
  show ?thesis by auto
qed

text \<open>
  A receiver finds in any stream the packets the reference parser finds.  An
  incomplete packet leaves it waiting for the rest; a header that is refused
  is handed to it.
\<close>

lemma stream_feeds:
  assumes "awaiting (length (fst (frames bs))) s" and "list_all ok (fst (frames bs))"
  shows "\<exists>t. chain consumed (fst (frames bs)) s t \<and> awaiting 0 t \<and>
     (case snd (frames bs) of
        Incomplete r \<Rightarrow>
          if length r < 4 then feeds want arrive bs s (Inr t) r
          else \<exists>t1. arrive (take 4 r) t = Inr t1 \<and> feeds want arrive bs s (Inr t1) (drop 4 r)
      | Refused why r \<Rightarrow> refused (take 4 r) t (arrive (take 4 r) t) \<and>
          (\<forall>t1 res rest. arrive (take 4 r) t = Inr t1 \<longrightarrow> feeds want arrive (drop 4 r) t1 res rest \<longrightarrow>
             feeds want arrive bs s res rest) \<and>
          (\<forall>f. arrive (take 4 r) t = Inl f \<longrightarrow> feeds want arrive bs s (Inl f) (drop 4 r)))"
proof -
  from frames_complete [of bs] have bs: "concat (fst (frames bs)) @ unread (snd (frames bs)) = bs"
      and fr: "list_all framed (fst (frames bs))" by simp_all
  from packets_feed [of "fst (frames bs)" 0 s] assms fr obtain t where
      t: "awaiting 0 t" "chain consumed (fst (frames bs)) s t"
        "\<And>r rest. feeds want arrive (unread (snd (frames bs))) t r rest \<Longrightarrow> feeds want arrive bs s r rest"
    using bs by (metis add.right_neutral)
  note end_cases = frames_end [of bs]
  show ?thesis
  proof (cases "snd (frames bs)")
    case (Incomplete r)
    show ?thesis
    proof (cases "length r < 4")
      case True
      from partial_header_feeds [OF t(1) True] t Incomplete True show ?thesis by auto
    next
      case False
      with end_cases Incomplete obtain k where "header_verdict (take 4 r) = Inr k" "length r < k + 4" by auto
      from partial_body_feeds [OF t(1) False this] t Incomplete False show ?thesis by auto
    qed
  next
    case (Refused why r)
    with end_cases have r: "4 \<le> length r" "header_verdict (take 4 r) = Inl why" by simp_all
    have "refused (take 4 r) t (arrive (take 4 r) t)"
      by (rule header_bad [OF t(1) _ r(2)]) (use r(1) in simp)
    moreover have "feeds want arrive bs s res rest"
      if "arrive (take 4 r) t = Inr t1" "feeds want arrive (drop 4 r) t1 res rest" for t1 res rest
      using t(3) feeds_read [where want = want and arrive = arrive, OF want_header [OF t(1)] r(1) that] by (simp add: Refused)
    moreover have "feeds want arrive bs s (Inl f) (drop 4 r)" if "arrive (take 4 r) t = Inl f" for f
      using t(3) feeds_fail [where want = want and arrive = arrive, OF want_header [OF t(1)] r(1) that] by (simp add: Refused)
    ultimately show ?thesis using t Refused by auto
  qed
qed

text \<open>Packets, and then a header that is refused by a receiver that reads no more.\<close>

lemma refused_after_packets:
  assumes "awaiting (length ps) s" and "list_all framed ps" and "list_all ok ps"
    and "4 \<le> length bs" and "header_verdict (take 4 bs) = Inl why"
  shows "\<exists>t. chain consumed ps s t \<and> refused (take 4 bs) t (arrive (take 4 bs) t) \<and>
     (\<forall>u. arrive (take 4 bs) t = Inr u \<longrightarrow> want u = None \<longrightarrow>
        feeds want arrive (concat ps @ bs) s (Inr u) (drop 4 bs))"
proof -
  from packets_feed [of ps 0 s] assms(1-3) obtain t where
      t: "awaiting 0 t" "chain consumed ps s t"
        "\<And>bs r rest. feeds want arrive bs t r rest \<Longrightarrow> feeds want arrive (concat ps @ bs) s r rest" by auto
  have "refused (take 4 bs) t (arrive (take 4 bs) t)"
    by (rule header_bad [OF t(1) _ assms(5)]) (use assms(4) in simp)
  moreover have "feeds want arrive (concat ps @ bs) s (Inr u) (drop 4 bs)"
    if "arrive (take 4 bs) t = Inr u" "want u = None" for u
  proof (rule t(3), rule feeds_read [where want = want and arrive = arrive, OF want_header [OF t(1)] assms(4) that(1)])
    show "feeds want arrive (drop 4 bs) u (Inr u) (drop 4 bs)" by (rule feeds_stop) (simp add: that(2))
  qed
  ultimately show ?thesis using t(2) by blast
qed

end

section \<open>The first operation of a kind\<close>

definition first_index :: "('a \<Rightarrow> bool) \<Rightarrow> 'a list \<Rightarrow> nat" where
  "first_index P xs = length (takeWhile (\<lambda>x. \<not> P x) xs)"

lemma filter_single:
  assumes "filter P xs = [x]"
  obtains ys zs where "xs = ys @ x # zs" "first_index P xs = length ys" "P x"
    "filter P ys = []" "filter P zs = []" "\<forall>y \<in> set ys \<union> set zs. \<not> P y"
proof -
  from assms obtain ys zs where xs: "xs = ys @ x # zs" "\<forall>y \<in> set ys. \<not> P y" "P x" "[] = filter P zs"
    by (auto simp: filter_eq_Cons_iff)
  then have "first_index P xs = length ys" by (simp add: first_index_def)
  moreover have "\<forall>y \<in> set zs. \<not> P y" using xs(4) by (metis filter_empty_conv)
  ultimately show ?thesis using xs by (intro that [of ys zs]) auto
qed

end
