(* ===== verification/SigTypes.thy ===== *)
theory SigTypes
  imports Framing
begin

text \<open>
  \<open>include/clientnode/sigtypes.hpp\<close> and \<open>logstreams.hpp\<close>: what the client node
  reports to the application, and where it logs.  Reports are created with
  \<open>std::make_shared<Report>()\<close>, which value-initialises them: numbers and
  enumerators are zero and strings empty until a member is assigned.
\<close>

record server_location =
  where_string :: string

datatype connect_state_t = CNST_DISCONNECTED | CNST_CONNECTING | CNST_CONNECTED

datatype statechange_reason_t =
    STCHR_NO_REASON
  | STCHR_INTERNAL_ERROR
  | STCHR_CONNECT_SUCCESSFUL
  | STCHR_CONNECT_FAILED
  | STCHR_SOCKET_CLOSED
  | STCHR_USER_REQUESTED
  | STCHR_BUSY

text \<open>The enumerators are numbers in C++ and compared as such.\<close>

primrec stchr_value :: "statechange_reason_t \<Rightarrow> nat" where
  "stchr_value STCHR_NO_REASON = 0"
| "stchr_value STCHR_INTERNAL_ERROR = 1"
| "stchr_value STCHR_CONNECT_SUCCESSFUL = 2"
| "stchr_value STCHR_CONNECT_FAILED = 3"
| "stchr_value STCHR_SOCKET_CLOSED = 4"
| "stchr_value STCHR_USER_REQUESTED = 5"
| "stchr_value STCHR_BUSY = 6"

lemma stchr_value_inject [simp]: "stchr_value a = stchr_value b \<longleftrightarrow> a = b"
  by (cases a; cases b) simp_all

instantiation statechange_reason_t :: linorder
begin

definition less_eq_statechange_reason_t :: "statechange_reason_t \<Rightarrow> statechange_reason_t \<Rightarrow> bool" where
  "a \<le> b \<longleftrightarrow> stchr_value a \<le> stchr_value b"

definition less_statechange_reason_t :: "statechange_reason_t \<Rightarrow> statechange_reason_t \<Rightarrow> bool" where
  "a < b \<longleftrightarrow> stchr_value a < stchr_value b"

instance
  by standard
    (auto simp: less_eq_statechange_reason_t_def less_statechange_reason_t_def
      simp flip: stchr_value_inject)

end

record connection_status_report =
  newstate :: connect_state_t
  statechange_reason :: statechange_reason_t
  csr_msg :: string

definition csr_init :: connection_status_report where
  "csr_init = \<lparr>newstate = CNST_DISCONNECTED, statechange_reason = STCHR_NO_REASON, csr_msg = ''''\<rparr>"

datatype send_rprt_reason_t = SR_SEND_OK | SR_SERVER_NOT_CONNECTED | SR_CONNECTION_ERROR

record send_report =
  message_id :: uint4b
  send_state :: bool
  sr_reason :: send_rprt_reason_t
  reason_str :: string

definition sr_init :: send_report where
  "sr_init = \<lparr>message_id = 0, send_state = False, sr_reason = SR_SEND_OK, reason_str = ''''\<rparr>"

text \<open>The three signals of \<open>ClientNodeSignals\<close>, as values in the order of emission.\<close>

datatype cn_signal =
    RcvMessage near_user_message
  | ConnectStatReport connection_status_report
  | SendReport send_report

fun status_reports :: "cn_signal list \<Rightarrow> connection_status_report list" where
  "status_reports [] = []"
| "status_reports (ConnectStatReport r # sigs) = r # status_reports sigs"
| "status_reports (_ # sigs) = status_reports sigs"

fun send_reports :: "cn_signal list \<Rightarrow> send_report list" where
  "send_reports [] = []"
| "send_reports (SendReport r # sigs) = r # send_reports sigs"
| "send_reports (_ # sigs) = send_reports sigs"

fun received_messages :: "cn_signal list \<Rightarrow> near_user_message list" where
  "received_messages [] = []"
| "received_messages (RcvMessage m # sigs) = m # received_messages sigs"
| "received_messages (_ # sigs) = received_messages sigs"

lemma status_reports_append [simp]:
  "status_reports (xs @ ys) = status_reports xs @ status_reports ys"
  by (induction xs rule: status_reports.induct) simp_all

lemma send_reports_append [simp]:
  "send_reports (xs @ ys) = send_reports xs @ send_reports ys"
  by (induction xs rule: send_reports.induct) simp_all

lemma received_messages_append [simp]:
  "received_messages (xs @ ys) = received_messages xs @ received_messages ys"
  by (induction xs rule: received_messages.induct) simp_all

section \<open>LoggingStreams\<close>

datatype std_stream = Clog | Cerr

record logging_streams =
  infostream :: std_stream
  warnstream :: std_stream
  errorstream :: std_stream

definition logging_streams_default :: logging_streams where
  "logging_streams_default = \<lparr>infostream = Clog, warnstream = Cerr, errorstream = Cerr\<rparr>"

end
