(* ===== verification/ClientMachine.thy ===== *)
theory ClientMachine
  imports SigTypes RefCounter
begin

text \<open>
  \<open>include/clientnode/statemachine.hpp\<close> and \<open>src/clientnode/statemachine.cpp\<close>:
  the connection state machine of the client and the handlers of its
  asynchronous operations.

  Boost.Statechart and Boost.Asio are not part of the repository.  Of the
  first the model uses its documented dispatch: an event goes to the reaction
  the active state lists for it, or is dropped; \<open>transit<S>()\<close> replaces the
  active state and runs the constructor of \<open>S\<close>; events posted there are
  processed before \<open>process_event\<close> returns.  Of the second it fixes nothing:
  an operation that is started becomes pending, and what it completes with
  (an error code, a number of bytes, the contents of the buffer) is chosen by
  the environment, in any order.
\<close>

section \<open>Events, states and the machine\<close>

datatype cn_state = StateWaiting | StateNegotiating | StateConnected

datatype cn_event =
    EvtConnectRequest string string
  | EvtConnectReport bool string
  | EvtDisconnectRequest
  | EvtDisconnected string
  | EvtSendMsg near_user_message
  | EvtRcvdMessage serialized_data

record endpoint =
  ep_address :: string
  ep_port :: uint2b

text \<open>
  A pending operation with what its handler is bound to; each also holds one
  \<open>CountedReference\<close> to the machine.  \<open>OpConnect\<close> carries the resolver
  iterator: the records from the one being tried to the last.
\<close>

datatype async_op =
    OpResolve string string
  | OpConnect "endpoint list"
  | OpReadHeader
  | OpReadBody nat
  | OpWrite "byte list"

datatype io_action =
    CatchThread nat
  | StartThread
  | CloseSocket
  | StopService
  | ResetService
  | AsyncStart async_op
  | NotifyReturned

datatype log_target = ToInfo | ToWarn | ToError
datatype log_entry = LogText string | LogEndpoint endpoint

text \<open>
  \<open>cm_rcvbufs\<close> counts the raw header buffers (\<open>new byte_t[header_length]\<close>)
  that have not been deleted.
\<close>

record clientnode_machine =
  cm_state :: cn_state
  cm_refs :: ref_counter
  cm_pending :: "async_op list"
  cm_rcvbufs :: nat
  cm_signals :: "cn_signal list"
  cm_io :: "io_action list"
  cm_log :: "(log_target \<times> log_entry) list"

definition thread_timeout :: nat where "thread_timeout = 3000"

definition emit :: "cn_signal \<Rightarrow> clientnode_machine \<Rightarrow> clientnode_machine" where
  "emit s m = m\<lparr>cm_signals := cm_signals m @ [s]\<rparr>"

definition do_io :: "io_action \<Rightarrow> clientnode_machine \<Rightarrow> clientnode_machine" where
  "do_io a m = m\<lparr>cm_io := cm_io m @ [a]\<rparr>"

definition log_to :: "log_target \<Rightarrow> log_entry \<Rightarrow> clientnode_machine \<Rightarrow> clientnode_machine" where
  "log_to t e m = m\<lparr>cm_log := cm_log m @ [(t, e)]\<rparr>"

text \<open>Starting an operation binds a \<open>CountedReference\<close> into its handler.\<close>

definition start_async :: "async_op \<Rightarrow> clientnode_machine \<Rightarrow> clientnode_machine" where
  "start_async op m =
     do_io (AsyncStart op)
       (m\<lparr>cm_refs := counted_ref_copy (cm_refs m), cm_pending := cm_pending m @ [op]\<rparr>)"

text \<open>When a handler returns its reference dies; the last one calls \<open>on_returned\<close>.\<close>

definition release_ref :: "clientnode_machine \<Rightarrow> clientnode_machine" where
  "release_ref m =
     (let (rc, fired) = counted_ref_dtor (cm_refs m); m' = m\<lparr>cm_refs := rc\<rparr>
      in if fired then do_io NotifyReturned m' else m')"

lemmas cm_effect_defs = emit_def do_io_def log_to_def start_async_def

section \<open>ClientnodeMachine\<close>

definition stopIOOperations :: "clientnode_machine \<Rightarrow> clientnode_machine" where
  "stopIOOperations m = do_io ResetService (do_io StopService (do_io CloseSocket m))"

text \<open>
  Creating the thread can throw; which it does is an input.  The result says
  which exception, if any, leaves the function.
\<close>

datatype thread_start = ThreadStarted | ThreadStdException string | ThreadUnknownException

definition startIOOperations :: "thread_start \<Rightarrow> clientnode_machine \<Rightarrow> clientnode_machine \<times> thread_start" where
  "startIOOperations ts m =
     (let m = do_io (CatchThread thread_timeout) m in
      case ts of ThreadStarted \<Rightarrow> (do_io StartThread m, ts) | _ \<Rightarrow> (m, ts))"

section \<open>Constructors of the states\<close>

text \<open>A constructor returns the machine and the events it posts.\<close>

definition enter_Waiting :: "clientnode_machine \<Rightarrow> clientnode_machine \<times> cn_event list" where
  "enter_Waiting m =
     (stopIOOperations (log_to ToInfo (LogText ''Entering StateWaiting'') m), [])"

definition enter_Negotiating ::
  "thread_start \<Rightarrow> clientnode_machine \<Rightarrow> clientnode_machine \<times> cn_event list" where
  "enter_Negotiating ts m =
     (let m = log_to ToInfo (LogText ''Entering StateNegotiating'') m;
          (m, thrown) = startIOOperations ts m
      in case thrown of
           ThreadStarted \<Rightarrow> (m, [])
         | ThreadStdException e_what \<Rightarrow> (m, [EvtConnectReport False (''Internal error:'' @ e_what)])
         | ThreadUnknownException \<Rightarrow> (m, [EvtConnectReport False ''Unknown internal Error'']))"

definition enter_Connected :: "clientnode_machine \<Rightarrow> clientnode_machine \<times> cn_event list" where
  "enter_Connected m = (log_to ToInfo (LogText ''Entering StateConnected'') m, [])"

fun enter_state ::
  "thread_start \<Rightarrow> cn_state \<Rightarrow> clientnode_machine \<Rightarrow> clientnode_machine \<times> cn_event list" where
  "enter_state ts StateWaiting m = enter_Waiting m"
| "enter_state ts StateNegotiating m = enter_Negotiating ts m"
| "enter_state ts StateConnected m = enter_Connected m"

text \<open>The machine as constructed, then initiated: it enters \<open>StateWaiting\<close>.\<close>

definition cm_ctor :: clientnode_machine where
  "cm_ctor = \<lparr>cm_state = StateWaiting, cm_refs = rc_ctor True, cm_pending = [], cm_rcvbufs = 0,
              cm_signals = [], cm_io = [], cm_log = []\<rparr>"

definition cm_initiate :: clientnode_machine where
  "cm_initiate = fst (enter_Waiting cm_ctor)"

text \<open>
  The destructor: the second component says whether it waits for
  \<open>returned_condition\<close>.
\<close>

definition cm_dtor :: "clientnode_machine \<Rightarrow> clientnode_machine \<times> bool" where
  "cm_dtor m =
     (let m = do_io (CatchThread thread_timeout) (stopIOOperations m)
      in (m, getRefCount (cm_refs m) > 0))"

section \<open>Reactions\<close>

datatype reaction = DiscardEvent | Transit cn_state

type_synonym react_result = "(clientnode_machine \<times> reaction) result"

subsection \<open>StateWaiting\<close>

definition waiting_ConnectRequest :: "string \<Rightarrow> string \<Rightarrow> clientnode_machine \<Rightarrow> react_result" where
  "waiting_ConnectRequest host_name service m =
     Inr (start_async (OpResolve host_name service) m, Transit StateNegotiating)"

definition waiting_SendMsg :: "near_user_message \<Rightarrow> clientnode_machine \<Rightarrow> react_result" where
  "waiting_SendMsg msg m =
     (let rprt = sr_init\<lparr>send_state := False, sr_reason := SR_SERVER_NOT_CONNECTED,
                         reason_str := ''Not Connected.''\<rparr>
      in Inr (emit (SendReport rprt) m, DiscardEvent))"

subsection \<open>StateNegotiating\<close>

definition negotiating_SendMsg :: "near_user_message \<Rightarrow> clientnode_machine \<Rightarrow> react_result" where
  "negotiating_SendMsg msg m =
     (let rprt = sr_init\<lparr>send_state := False, sr_reason := SR_SERVER_NOT_CONNECTED,
                         reason_str := ''Not yet Connected.''\<rparr>
      in Inr (emit (SendReport rprt) m, DiscardEvent))"

definition negotiating_ConnectReport ::
  "bool \<Rightarrow> string \<Rightarrow> clientnode_machine \<Rightarrow> react_result" where
  "negotiating_ConnectReport success message m =
     (if success
      then Inr (emit (ConnectStatReport (csr_init\<lparr>newstate := CNST_CONNECTED,
                  statechange_reason := STCHR_USER_REQUESTED, csr_msg := message\<rparr>)) m,
                Transit StateConnected)
      else Inr (emit (ConnectStatReport (csr_init\<lparr>newstate := CNST_DISCONNECTED,
                  statechange_reason := STCHR_CONNECT_FAILED, csr_msg := message\<rparr>)) m,
                Transit StateWaiting))"

definition negotiating_DisconnectRequest :: "clientnode_machine \<Rightarrow> react_result" where
  "negotiating_DisconnectRequest m =
     Inr (emit (ConnectStatReport (csr_init\<lparr>newstate := CNST_DISCONNECTED,
            statechange_reason := STCHR_USER_REQUESTED\<rparr>)) m,
          Transit StateWaiting)"

definition negotiating_ConnectRequest :: "clientnode_machine \<Rightarrow> react_result" where
  "negotiating_ConnectRequest m =
     Inr (emit (ConnectStatReport (csr_init\<lparr>newstate := CNST_CONNECTING,
            statechange_reason := STCHR_BUSY, csr_msg := ''Currently trying to connect''\<rparr>)) m,
          DiscardEvent)"

subsection \<open>StateConnected\<close>

definition connected_DisconnectRequest :: "clientnode_machine \<Rightarrow> react_result" where
  "connected_DisconnectRequest m =
     Inr (emit (ConnectStatReport (csr_init\<lparr>newstate := CNST_DISCONNECTED,
            statechange_reason := STCHR_USER_REQUESTED\<rparr>)) m,
          Transit StateWaiting)"

definition connected_SendMsg ::
  "endianness \<Rightarrow> near_user_message \<Rightarrow> clientnode_machine \<Rightarrow> react_result" where
  "connected_SendMsg host msg m =
     rbind (serialize (segm_size num_size)
              (segm_fillSerialized host num_size (num_fillSerialized host)) msg) (\<lambda>data.
     Inr (start_async (OpWrite data) m, DiscardEvent))"

definition connected_Disconnected :: "string \<Rightarrow> clientnode_machine \<Rightarrow> react_result" where
  "connected_Disconnected msg m =
     Inr (emit (ConnectStatReport (csr_init\<lparr>newstate := CNST_DISCONNECTED,
            statechange_reason := STCHR_SOCKET_CLOSED, csr_msg := msg\<rparr>)) m,
          Transit StateWaiting)"

definition connected_RcvdMessage ::
  "endianness \<Rightarrow> serialized_data \<Rightarrow> clientnode_machine \<Rightarrow> react_result" where
  "connected_RcvdMessage host data m =
     rbind (get_byte (sd_begin_it data)) (\<lambda>(layer_id, _).
     if layer_id = NUM_LAYER_ID
     then (case num_of_serialized host data of
             Inr usermsg \<Rightarrow> Inr (emit (RcvMessage usermsg) m, DiscardEvent)
           | Inl (Throw e) \<Rightarrow>
               if caught_as_MsgLayerError e
               then Inr (log_to ToError (LogText
                      (''Reiceived packet but failed to create Message object: '' @ exn_what e)) m,
                      DiscardEvent)
               else Inl (Throw e)
           | Inl (Undefined u) \<Rightarrow> Inl (Undefined u))
     else Inr (log_to ToWarn (LogText
            ''Received packet with unknown layer identifier! Discarding.'') m, DiscardEvent))"

definition connected_ConnectRequest :: "clientnode_machine \<Rightarrow> react_result" where
  "connected_ConnectRequest m =
     Inr (emit (ConnectStatReport (csr_init\<lparr>newstate := CNST_CONNECTED,
            statechange_reason := STCHR_BUSY, csr_msg := ''Allready connected''\<rparr>)) m,
          DiscardEvent)"

lemmas react_defs = waiting_ConnectRequest_def waiting_SendMsg_def negotiating_SendMsg_def
  negotiating_ConnectReport_def negotiating_DisconnectRequest_def negotiating_ConnectRequest_def
  connected_DisconnectRequest_def connected_SendMsg_def connected_Disconnected_def
  connected_RcvdMessage_def connected_ConnectRequest_def

section \<open>Dispatching events\<close>

text \<open>The reaction lists of the three states; an event not listed is dropped.\<close>

fun react :: "endianness \<Rightarrow> cn_state \<Rightarrow> cn_event \<Rightarrow> clientnode_machine \<Rightarrow> react_result" where
  "react host StateWaiting (EvtConnectRequest h s) m = waiting_ConnectRequest h s m"
| "react host StateWaiting (EvtSendMsg msg) m = waiting_SendMsg msg m"
| "react host StateNegotiating (EvtConnectReport ok msg) m = negotiating_ConnectReport ok msg m"
| "react host StateNegotiating EvtDisconnectRequest m = negotiating_DisconnectRequest m"
| "react host StateNegotiating (EvtSendMsg msg) m = negotiating_SendMsg msg m"
| "react host StateNegotiating (EvtConnectRequest h s) m = negotiating_ConnectRequest m"
| "react host StateConnected EvtDisconnectRequest m = connected_DisconnectRequest m"
| "react host StateConnected (EvtSendMsg msg) m = connected_SendMsg host msg m"
| "react host StateConnected (EvtDisconnected msg) m = connected_Disconnected msg m"
| "react host StateConnected (EvtRcvdMessage data) m = connected_RcvdMessage host data m"
| "react host StateConnected (EvtConnectRequest h s) m = connected_ConnectRequest m"
| "react host _ _ m = Inr (m, DiscardEvent)"

definition dispatch ::
  "endianness \<Rightarrow> thread_start \<Rightarrow> cn_event \<Rightarrow> clientnode_machine
     \<Rightarrow> (clientnode_machine \<times> cn_event list) result" where
  "dispatch host ts e m =
     rbind (react host (cm_state m) e m) (\<lambda>(m', r).
     case r of
       DiscardEvent \<Rightarrow> Inr (m', [])
     | Transit st \<Rightarrow> Inr (enter_state ts st (m'\<lparr>cm_state := st\<rparr>)))"

text \<open>
  Only a connection request can make a constructor post an event, and only a
  failed connection report, which posts nothing further.
\<close>

primrec event_weight :: "cn_event \<Rightarrow> nat" where
  "event_weight (EvtConnectRequest h s) = 2"
| "event_weight (EvtConnectReport ok msg) = 1"
| "event_weight EvtDisconnectRequest = 1"
| "event_weight (EvtDisconnected msg) = 1"
| "event_weight (EvtSendMsg msg) = 1"
| "event_weight (EvtRcvdMessage data) = 1"

lemma dispatch_posts:
  "dispatch host ts e m = Inr (m', posted) \<Longrightarrow> sum_list (map event_weight posted) < event_weight e"
  by (cases "cm_state m"; cases e)
    (auto simp: dispatch_def react_defs rbind_eq_Inr_iff Let_def enter_Waiting_def
      enter_Connected_def enter_Negotiating_def startIOOperations_def
      split: if_splits sum.splits failure.splits thread_start.splits)

function process_queue ::
  "endianness \<Rightarrow> thread_start \<Rightarrow> cn_event list \<Rightarrow> clientnode_machine \<Rightarrow> clientnode_machine result" where
  "process_queue host ts [] m = Inr m"
| "process_queue host ts (e # es) m =
     rbind (dispatch host ts e m) (\<lambda>p. process_queue host ts (es @ snd p) (fst p))"
  by pat_completeness auto
termination
  by (relation "measure (\<lambda>(host, ts, es, m). sum_list (map event_weight es))")
    (auto dest: dispatch_posts)

definition process_event ::
  "endianness \<Rightarrow> thread_start \<Rightarrow> cn_event \<Rightarrow> clientnode_machine \<Rightarrow> clientnode_machine result" where
  "process_event host ts e m = process_queue host ts [e] m"

end
