(* ===== verification/ClientHandlers.thy ===== *)
theory ClientHandlers
  imports ClientMachine
begin

text \<open>
  \<open>src/clientnode/statemachine.cpp\<close>, the static member functions: the handlers
  that Boost.Asio calls when an asynchronous operation of the client
  completes, and the step relation of the whole client machine (requests of
  the application and completions, in any order).
\<close>

section \<open>The handlers\<close>

type_synonym handler = "clientnode_machine \<Rightarrow> clientnode_machine result"

text \<open>
  \<open>eps\<close> is the resolver iterator: the records found, empty for the default
  constructed end iterator.
\<close>

definition resolveHandler ::
  "endianness \<Rightarrow> (error_code \<Rightarrow> string) \<Rightarrow> thread_start \<Rightarrow> error_code \<Rightarrow> endpoint list \<Rightarrow> handler" where
  "resolveHandler host em ts error eps m =
     (let m = log_to ToInfo (LogText ''resolveHandler invoked.'') m in
      if eps = [] then
        (if error \<noteq> Success
         then (if error = OperationAborted then Inr m
               else process_event host ts (EvtConnectReport False (em error)) m)
         else process_event host ts (EvtConnectReport False ''No hosts found.'') m)
      else
        (let m = log_to ToInfo (LogText ''Resolving finished. The following records were found:'') m;
             m = fold (\<lambda>ep. log_to ToInfo (LogEndpoint ep)) eps m
         in Inr (start_async (OpConnect eps) m)))"

text \<open>The buffer allocated with \<open>new\<close> for the next header, and the read into it.\<close>

definition start_read_header :: "clientnode_machine \<Rightarrow> clientnode_machine" where
  "start_read_header m =
     start_async OpReadHeader (m\<lparr>cm_rcvbufs := Suc (cm_rcvbufs m)\<rparr>)"

definition connectHandler ::
  "endianness \<Rightarrow> (error_code \<Rightarrow> string) \<Rightarrow> thread_start \<Rightarrow> error_code \<Rightarrow> endpoint list \<Rightarrow> handler" where
  "connectHandler host em ts error eps m =
     (case eps of
        [] \<Rightarrow> Inl (Undefined ReadOutOfBounds)
      | ep # rest \<Rightarrow>
         (let m = log_to ToInfo (LogText (''connectHandler invoked. (host '' @ ep_address ep @ '')'')) m
          in if error = Success
             then process_event host ts (EvtConnectReport True ''Connection succeeded.'')
                    (start_read_header m)
             else if rest \<noteq> []
             then Inr (start_async (OpConnect rest) (do_io CloseSocket m))
             else if error = OperationAborted then Inr m
             else process_event host ts (EvtConnectReport False (em error)) m))"

definition writeHandler ::
  "endianness \<Rightarrow> (error_code \<Rightarrow> string) \<Rightarrow> thread_start \<Rightarrow> error_code \<Rightarrow> nat \<Rightarrow> byte list \<Rightarrow> handler" where
  "writeHandler host em ts error bytes_transferred data m =
     (let m = log_to ToInfo (LogText ''Sending message finished'') m in
      if error = Success
      then Inr (emit (SendReport (sr_init\<lparr>send_state := True, sr_reason := SR_SEND_OK\<rparr>)) m)
      else
        (let errmsg = em error;
             m = emit (SendReport (sr_init\<lparr>send_state := False,
                        sr_reason := SR_CONNECTION_ERROR, reason_str := errmsg\<rparr>)) m
         in process_event host ts (EvtDisconnected errmsg) m))"

text \<open>
  The body of the \<open>try\<close> block either starts the read of the body or throws;
  everything thrown there is a \<open>std::exception\<close>.  The early return on
  \<open>operation_aborted\<close> leaves before the \<open>delete[]\<close> of the last line.
\<close>

definition delete_rcvbuf :: "clientnode_machine \<Rightarrow> clientnode_machine" where
  "delete_rcvbuf m = m\<lparr>cm_rcvbufs := cm_rcvbufs m - 1\<rparr>"

definition receiveSegmentationHeaderHandler ::
  "endianness \<Rightarrow> (error_code \<Rightarrow> string) \<Rightarrow> thread_start \<Rightarrow> error_code \<Rightarrow> nat \<Rightarrow> byte list \<Rightarrow> handler" where
  "receiveSegmentationHeaderHandler host em ts error bytes_transferred rcvbuf m =
     (let m = log_to ToInfo (LogText ''Reveive (header) handler invoked'') m in
      if error \<noteq> Success \<or> bytes_transferred \<noteq> segm_header_length then
        (if error = OperationAborted then Inr m
         else rbind (process_event host ts (EvtDisconnected (em error)) m) (\<lambda>m. Inr (delete_rcvbuf m)))
      else
        rbind
          (case body_buffer host (MsgLayerError ''Oversized packet.'') rcvbuf of
             Inr body_buf \<Rightarrow> Inr (start_async (OpReadBody (length body_buf)) m)
           | Inl (Throw e) \<Rightarrow> process_event host ts (EvtDisconnected (exn_what e)) m
           | Inl (Undefined u) \<Rightarrow> Inl (Undefined u))
          (\<lambda>m. Inr (delete_rcvbuf m)))"

definition receiveSegmentationBodyHandler ::
  "endianness \<Rightarrow> (error_code \<Rightarrow> string) \<Rightarrow> thread_start \<Rightarrow> error_code \<Rightarrow> nat \<Rightarrow> byte list \<Rightarrow> handler" where
  "receiveSegmentationBodyHandler host em ts error bytes_transferred rcvbuf m =
     (if error \<noteq> Success
      then process_event host ts (EvtDisconnected (em error)) m
      else rbind (process_event host ts (EvtRcvdMessage (sd_of_block rcvbuf)) m) (\<lambda>m.
           Inr (start_read_header m)))"

lemmas client_handler_defs [handler_defs] = resolveHandler_def connectHandler_def writeHandler_def
  receiveSegmentationHeaderHandler_def receiveSegmentationBodyHandler_def

section \<open>Completions and steps\<close>

datatype completion =
    ResolveDone error_code "endpoint list"
  | ConnectDone error_code
  | ReadDone error_code nat "byte list"
  | WriteDone error_code nat

text \<open>
  What Boost.Asio documents of its completions: the handler of an operation
  gets the arguments of its kind; a read leaves a buffer of the size it was
  given; \<open>async_read\<close> and \<open>async_write\<close> succeed only with the whole buffer
  transferred.
\<close>

fun completes :: "async_op \<Rightarrow> completion \<Rightarrow> bool" where
  "completes (OpResolve h s) (ResolveDone ec eps) = True"
| "completes (OpConnect eps) (ConnectDone ec) = True"
| "completes OpReadHeader (ReadDone ec n data) =
     (length data = segm_header_length \<and> (ec = Success \<longrightarrow> n = segm_header_length))"
| "completes (OpReadBody k) (ReadDone ec n data) = (length data = k \<and> (ec = Success \<longrightarrow> n = k))"
| "completes (OpWrite data) (WriteDone ec n) = (ec = Success \<longrightarrow> n = length data)"
| "completes _ _ = False"

fun run_handler ::
  "endianness \<Rightarrow> (error_code \<Rightarrow> string) \<Rightarrow> thread_start \<Rightarrow> async_op \<Rightarrow> completion \<Rightarrow> handler" where
  "run_handler host em ts (OpResolve h s) (ResolveDone ec eps) m = resolveHandler host em ts ec eps m"
| "run_handler host em ts (OpConnect eps) (ConnectDone ec) m = connectHandler host em ts ec eps m"
| "run_handler host em ts OpReadHeader (ReadDone ec n data) m =
     receiveSegmentationHeaderHandler host em ts ec n data m"
| "run_handler host em ts (OpReadBody k) (ReadDone ec n data) m =
     receiveSegmentationBodyHandler host em ts ec n data m"
| "run_handler host em ts (OpWrite data) (WriteDone ec n) m = writeHandler host em ts ec n data m"
| "run_handler host em ts _ _ m = Inr m"

text \<open>Completion of the pending operation at an index: run its handler, then drop its reference.\<close>

definition remove_nth :: "nat \<Rightarrow> 'a list \<Rightarrow> 'a list" where
  "remove_nth i xs = take i xs @ drop (Suc i) xs"

definition complete_op ::
  "endianness \<Rightarrow> (error_code \<Rightarrow> string) \<Rightarrow> thread_start \<Rightarrow> nat \<Rightarrow> completion \<Rightarrow> handler" where
  "complete_op host em ts i c m =
     rbind (run_handler host em ts (cm_pending m ! i) c
              (m\<lparr>cm_pending := remove_nth i (cm_pending m)\<rparr>)) (\<lambda>m'.
     Inr (release_ref m'))"

text \<open>The events the application can cause through \<open>ClientNode\<close>.\<close>

fun user_event :: "cn_event \<Rightarrow> bool" where
  "user_event (EvtConnectRequest h s) = True"
| "user_event EvtDisconnectRequest = True"
| "user_event (EvtSendMsg msg) = True"
| "user_event _ = False"

inductive cm_step :: "endianness \<Rightarrow> (error_code \<Rightarrow> string) \<Rightarrow> clientnode_machine \<Rightarrow> clientnode_machine \<Rightarrow> bool"
  for host em where
  user: "user_event e \<Longrightarrow> process_event host ts e m = Inr m' \<Longrightarrow> cm_step host em m m'"
| completion: "i < length (cm_pending m) \<Longrightarrow> completes (cm_pending m ! i) c \<Longrightarrow>
    complete_op host em ts i c m = Inr m' \<Longrightarrow> cm_step host em m m'"

inductive cm_reachable :: "endianness \<Rightarrow> (error_code \<Rightarrow> string) \<Rightarrow> clientnode_machine \<Rightarrow> bool"
  for host em where
  start: "cm_reachable host em cm_initiate"
| step: "cm_reachable host em m \<Longrightarrow> cm_step host em m m' \<Longrightarrow> cm_reachable host em m'"

inductive_cases cm_stepE: "cm_step host em m m'"

section \<open>What process_event does\<close>

text \<open>
  The effect of an event on the state and on the reports, as a table: the
  specification the machine refines.  The table says nothing of sockets,
  threads, references or logs.
\<close>

definition disconnected_rprt :: "statechange_reason_t \<Rightarrow> string \<Rightarrow> cn_signal" where
  "disconnected_rprt why msg =
     ConnectStatReport \<lparr>newstate = CNST_DISCONNECTED, statechange_reason = why, csr_msg = msg\<rparr>"

definition not_sent_rprt :: "string \<Rightarrow> cn_signal" where
  "not_sent_rprt msg =
     SendReport \<lparr>message_id = 0, send_state = False, sr_reason = SR_SERVER_NOT_CONNECTED, reason_str = msg\<rparr>"

fun start_error :: "thread_start \<Rightarrow> string option" where
  "start_error ThreadStarted = None"
| "start_error (ThreadStdException w) = Some (''Internal error:'' @ w)"
| "start_error ThreadUnknownException = Some ''Unknown internal Error''"

definition delivered :: "serialized_data \<Rightarrow> cn_signal list" where
  "delivered data =
     (if num_header_length \<le> length (sd_view data) \<and> hd (sd_view data) = NUM_LAYER_ID
      then [RcvMessage (num_parse (sd_view data))] else [])"

fun cn_spec :: "thread_start \<Rightarrow> cn_state \<Rightarrow> cn_event \<Rightarrow> cn_state \<times> cn_signal list" where
  "cn_spec ts StateWaiting (EvtConnectRequest h s) =
     (case start_error ts of
        None \<Rightarrow> (StateNegotiating, [])
      | Some msg \<Rightarrow> (StateWaiting, [disconnected_rprt STCHR_CONNECT_FAILED msg]))"
| "cn_spec ts StateWaiting (EvtSendMsg msg) = (StateWaiting, [not_sent_rprt ''Not Connected.''])"
| "cn_spec ts StateNegotiating (EvtConnectReport True msg) =
     (StateConnected, [ConnectStatReport \<lparr>newstate = CNST_CONNECTED,
        statechange_reason = STCHR_USER_REQUESTED, csr_msg = msg\<rparr>])"
| "cn_spec ts StateNegotiating (EvtConnectReport False msg) =
     (StateWaiting, [disconnected_rprt STCHR_CONNECT_FAILED msg])"
| "cn_spec ts StateNegotiating EvtDisconnectRequest =
     (StateWaiting, [disconnected_rprt STCHR_USER_REQUESTED ''''])"
| "cn_spec ts StateNegotiating (EvtSendMsg msg) =
     (StateNegotiating, [not_sent_rprt ''Not yet Connected.''])"
| "cn_spec ts StateNegotiating (EvtConnectRequest h s) =
     (StateNegotiating, [ConnectStatReport \<lparr>newstate = CNST_CONNECTING,
        statechange_reason = STCHR_BUSY, csr_msg = ''Currently trying to connect''\<rparr>])"
| "cn_spec ts StateConnected EvtDisconnectRequest =
     (StateWaiting, [disconnected_rprt STCHR_USER_REQUESTED ''''])"
| "cn_spec ts StateConnected (EvtDisconnected msg) =
     (StateWaiting, [disconnected_rprt STCHR_SOCKET_CLOSED msg])"
| "cn_spec ts StateConnected (EvtRcvdMessage data) = (StateConnected, delivered data)"
| "cn_spec ts StateConnected (EvtConnectRequest h s) =
     (StateConnected, [ConnectStatReport \<lparr>newstate = CNST_CONNECTED,
        statechange_reason = STCHR_BUSY, csr_msg = ''Allready connected''\<rparr>])"
| "cn_spec ts st _ = (st, [])"

end
