(* ===== verification/ClientFacts.thy ===== *)
theory ClientFacts
  imports ClientHandlers
begin

text \<open>
  What the client machine guarantees: the effect of every event in every
  state (a refinement of the table \<open>cn_spec\<close>), an induction rule for the
  handlers, and the invariants of all reachable machines.
\<close>

section \<open>Effect of an event\<close>

text \<open>A received message always is a whole receive buffer.\<close>

fun event_wf :: "cn_event \<Rightarrow> bool" where
  "event_wf (EvtRcvdMessage data) = (data = sd_of_block (sd_memblock data))"
| "event_wf _ = True"

text \<open>When processing an event neither throws nor reads outside the packet.\<close>

fun event_ok :: "cn_state \<Rightarrow> cn_event \<Rightarrow> bool" where
  "event_ok StateConnected (EvtSendMsg msg) = (num_size msg + 4 \<le> vector_max_size)"
| "event_ok StateConnected (EvtRcvdMessage data) = (sd_ok data \<and> 0 < sd_size data)"
| "event_ok _ _ = True"

fun event_starts :: "cn_state \<Rightarrow> cn_event \<Rightarrow> async_op list" where
  "event_starts StateWaiting (EvtConnectRequest h s) = [OpResolve h s]"
| "event_starts StateConnected (EvtSendMsg msg) = [OpWrite (segm_wire num_wire msg)]"
| "event_starts _ _ = []"

lemmas enter_defs = enter_Waiting_def enter_Negotiating_def enter_Connected_def
  startIOOperations_def stopIOOperations_def

text \<open>\<open>evolves m m' st sigs ops\<close>: the parts of the machine that matter to its contract.\<close>

definition evolves ::
  "clientnode_machine \<Rightarrow> clientnode_machine \<Rightarrow> cn_state \<Rightarrow> cn_signal list \<Rightarrow> async_op list \<Rightarrow> bool" where
  "evolves m m' st sigs ops \<longleftrightarrow>
     cm_state m' = st \<and> cm_signals m' = cm_signals m @ sigs \<and> cm_pending m' = cm_pending m @ ops \<and>
     cm_rcvbufs m' = cm_rcvbufs m \<and>
     reference_count (cm_refs m') = reference_count (cm_refs m) + of_nat (length ops) \<and>
     rc_action (cm_refs m') = rc_action (cm_refs m)"

lemma serialize_num:
  "num_size msg + 4 \<le> vector_max_size \<Longrightarrow>
   serialize (segm_size num_size) (segm_fillSerialized host num_size (num_fillSerialized host)) msg
     = Inr (segm_wire num_wire msg)"
  by (rule num.segm_serialize) simp_all

lemma serialize_num_too_big:
  "vector_max_size < num_size msg + 4 \<Longrightarrow>
   serialize (segm_size num_size) (segm_fillSerialized host num_size (num_fillSerialized host)) msg
     = Inl (Throw LengthError)"
  by (simp add: serialize_def vector_ctor_def segm_size_def segm_header_length_def)

lemma get_byte_view:
  "sd_ok d \<Longrightarrow> 0 < sd_size d \<Longrightarrow>
   get_byte (sd_begin_it d) = Inr (hd (sd_view d), (sd_memblock d, Suc (sd_begin d)))"
  by (simp add: get_byte_def sd_begin_it_def sd_ok_def sd_size_def sd_view_def hd_conv_nth)

lemma rcvd_effect:
  assumes "sd_ok data" and "0 < sd_size data"
  shows "\<exists>m'. connected_RcvdMessage host data m = Inr (m', DiscardEvent) \<and>
     evolves m m' (cm_state m) (delivered data) []"
  using assms
  by (auto simp: connected_RcvdMessage_def get_byte_view num_of_serialized_cases delivered_def
      evolves_def emit_def log_to_def)

lemma process_event_effect:
  assumes "event_ok (cm_state m) e"
  shows "\<exists>m'. process_event host ts e m = Inr m' \<and>
     evolves m m' (fst (cn_spec ts (cm_state m) e)) (snd (cn_spec ts (cm_state m) e))
       (event_starts (cm_state m) e)"
proof (cases "(\<exists>data. e = EvtRcvdMessage data) \<and> cm_state m = StateConnected")
  case True
  then obtain data where e: "e = EvtRcvdMessage data" and st: "cm_state m = StateConnected" by auto
  with assms have "sd_ok data" "0 < sd_size data" by simp_all
  from rcvd_effect [OF this, of host m] show ?thesis
    by (auto simp: e st process_event_def dispatch_def)
next
  case False
  then show ?thesis
    using assms
    by (cases "cm_state m"; cases e; cases ts)
      (auto simp: process_event_def dispatch_def react_defs enter_defs evolves_def cm_effect_defs
        serialize_num rc_defs Let_def csr_init_def sr_init_def disconnected_rprt_def not_sent_rprt_def)
qed

lemma process_event_fails:
  assumes "event_wf e" and "\<not> event_ok (cm_state m) e"
  shows "process_event host ts e m =
     Inl (if \<exists>msg. e = EvtSendMsg msg then Throw LengthError else Undefined ReadOutOfBounds)"
proof (cases "cm_state m"; cases e)
  fix data
  assume st: "cm_state m = StateConnected" and e: "e = EvtRcvdMessage data"
  with assms have data: "data = sd_of_block (sd_memblock data)" by simp
  then have "sd_size data = length (sd_memblock data)" "sd_ok data"
    using sd_of_block_simps [of "sd_memblock data"] by simp_all
  with assms st e have "sd_memblock data = []" by simp
  with data have "get_byte (sd_begin_it data) = Inl (Undefined ReadOutOfBounds)"
    by (simp add: get_byte_def sd_begin_it_def sd_of_block_def)
  then show ?thesis
    by (simp add: st e process_event_def dispatch_def connected_RcvdMessage_def)
qed (use assms in \<open>auto simp: process_event_def dispatch_def connected_SendMsg_def
      serialize_num_too_big\<close>)

lemma process_event_Inr:
  assumes "event_wf e" and "process_event host ts e m = Inr m'"
  shows "event_ok (cm_state m) e \<and>
     evolves m m' (fst (cn_spec ts (cm_state m) e)) (snd (cn_spec ts (cm_state m) e))
       (event_starts (cm_state m) e)"
proof (cases "event_ok (cm_state m) e")
  case True
  from process_event_effect [OF this, of host ts] assms(2) True show ?thesis by auto
next
  case False
  from process_event_fails [OF assms(1) this, of host ts] assms(2) show ?thesis by simp
qed

section \<open>Induction over a handler\<close>

text \<open>
  A handler is a sequence of logging, reporting, starting operations, buffer
  bookkeeping and at most one processed event; a predicate kept by each of
  these is kept by the handler.
\<close>

lemma fold_log_keeps:
  assumes "\<And>t e m. P m \<Longrightarrow> P (log_to t e m)" and "P m"
  shows "P (fold (\<lambda>ep. log_to ToInfo (LogEndpoint ep)) eps m)"
  using assms(2) by (induction eps arbitrary: m) (simp_all add: assms(1))

lemma run_handler_keeps:
  assumes run: "run_handler host em ts op c m = Inr m'" and P: "P m"
    and log: "\<And>t e m. P m \<Longrightarrow> P (log_to t e m)"
    and rprt: "\<And>r m. P m \<Longrightarrow> message_id r = 0 \<Longrightarrow> P (emit (SendReport r) m)"
    and close: "\<And>m. P m \<Longrightarrow> P (do_io CloseSocket m)"
    and start: "\<And>op m. P m \<Longrightarrow> P (start_async op m)"
    and bufs: "\<And>n m. P m \<Longrightarrow> P (m\<lparr>cm_rcvbufs := n\<rparr>)"
    and event: "\<And>e m m'. P m \<Longrightarrow> event_wf e \<Longrightarrow> process_event host ts e m = Inr m' \<Longrightarrow> P m'"
  shows "P m'"
proof -
  have wf: "event_wf (EvtRcvdMessage (sd_of_block data))" for data
    by (simp add: sd_of_block_def)
  have event': "P m'" if "process_event host ts e m = Inr m'" "P m" "event_wf e" for e m m'
    using that by (blast intro: event)
  note keeps = log rprt close start bufs fold_log_keeps [of P, OF log]
  show ?thesis
    using run P
    by (cases op; cases c)
      (auto simp: client_handler_defs start_read_header_def delete_rcvbuf_def sr_init_def Let_def rbind_eq_Inr_iff
        intro!: keeps elim!: event' intro: wf
        split: if_splits list.splits sum.splits failure.splits)
qed

section \<open>Invariants of reachable machines\<close>

text \<open>References: one for every pending operation, and \<open>k\<close> more.\<close>

definition refs_surplus :: "nat \<Rightarrow> clientnode_machine \<Rightarrow> bool" where
  "refs_surplus k m \<longleftrightarrow>
     reference_count (cm_refs m) = of_nat (length (cm_pending m) + k) \<and> rc_action (cm_refs m)"

definition last_newstate :: "connection_status_report list \<Rightarrow> connect_state_t option" where
  "last_newstate rs = (if rs = [] then None else Some (newstate (last rs)))"

definition last_status :: "clientnode_machine \<Rightarrow> connect_state_t option" where
  "last_status m = last_newstate (status_reports (cm_signals m))"

text \<open>What the last status report may say in which state.\<close>

fun status_fits :: "cn_state \<Rightarrow> connect_state_t option \<Rightarrow> bool" where
  "status_fits StateWaiting r = (r = None \<or> r = Some CNST_DISCONNECTED)"
| "status_fits StateNegotiating r = (r \<noteq> Some CNST_CONNECTED)"
| "status_fits StateConnected r = (r = Some CNST_CONNECTED)"

definition status_inv :: "clientnode_machine \<Rightarrow> bool" where
  "status_inv m \<longleftrightarrow> status_fits (cm_state m) (last_status m)"

lemma last_newstate_simps [simp]:
  "last_newstate [] = None"
  "last_newstate (rs @ [r]) = Some (newstate r)"
  "last_newstate [r] = Some (newstate r)"
  by (simp_all add: last_newstate_def)

lemma last_newstate_append:
  "last_newstate (rs @ rs') = (if rs' = [] then last_newstate rs else last_newstate rs')"
  by (simp add: last_newstate_def)

lemma cn_spec_status:
  assumes "status_fits st (last_newstate rs)"
  shows "status_fits (fst (cn_spec ts st e))
     (last_newstate (rs @ status_reports (snd (cn_spec ts st e))))"
  using assms
  by (cases "(ts, st, e)" rule: cn_spec.cases)
    (auto simp: disconnected_rprt_def not_sent_rprt_def delivered_def split: option.split)

lemma evolves_status:
  assumes "status_inv m"
    and "evolves m m' (fst (cn_spec ts (cm_state m) e)) (snd (cn_spec ts (cm_state m) e)) ops"
  shows "status_inv m'"
  using assms cn_spec_status [of "cm_state m" "status_reports (cm_signals m)" ts e]
  by (simp add: status_inv_def evolves_def last_status_def)

lemma evolves_refs: "refs_surplus k m \<Longrightarrow> evolves m m' st sigs ops \<Longrightarrow> refs_surplus k m'"
  by (simp add: refs_surplus_def evolves_def)

lemma status_inv_effects:
  "status_inv m \<Longrightarrow> status_inv (log_to t e m)"
  "status_inv m \<Longrightarrow> status_inv (emit (SendReport r) m)"
  "status_inv m \<Longrightarrow> status_inv (do_io a m)"
  "status_inv m \<Longrightarrow> status_inv (start_async op m)"
  "status_inv m \<Longrightarrow> status_inv (m\<lparr>cm_rcvbufs := n\<rparr>)"
  by (simp_all add: status_inv_def last_status_def cm_effect_defs)

lemma refs_surplus_effects:
  "refs_surplus k m \<Longrightarrow> refs_surplus k (log_to t e m)"
  "refs_surplus k m \<Longrightarrow> refs_surplus k (emit s m)"
  "refs_surplus k m \<Longrightarrow> refs_surplus k (do_io a m)"
  "refs_surplus k m \<Longrightarrow> refs_surplus k (start_async op m)"
  "refs_surplus k m \<Longrightarrow> refs_surplus k (m\<lparr>cm_rcvbufs := n\<rparr>)"
  by (simp_all add: refs_surplus_def cm_effect_defs rc_defs add.commute add.left_commute)

lemma release_ref_simps [simp]:
  "cm_state (release_ref m) = cm_state m"
  "cm_signals (release_ref m) = cm_signals m"
  "cm_pending (release_ref m) = cm_pending m"
  "cm_rcvbufs (release_ref m) = cm_rcvbufs m"
  "cm_refs (release_ref m) = fst (counted_ref_dtor (cm_refs m))"
  by (simp_all add: release_ref_def do_io_def case_prod_beta Let_def)

lemma length_remove_nth: "i < length xs \<Longrightarrow> Suc (length (remove_nth i xs)) = length xs"
  by (simp add: remove_nth_def)

lemma complete_op_status:
  assumes "status_inv m" and "complete_op host em ts i c m = Inr m'"
  shows "status_inv m'"
proof -
  from assms(2) obtain m1 where run: "run_handler host em ts (cm_pending m ! i) c
        (m\<lparr>cm_pending := remove_nth i (cm_pending m)\<rparr>) = Inr m1" and m': "m' = release_ref m1"
    by (auto simp: complete_op_def rbind_eq_Inr_iff)
  have "status_inv m1"
    using run
  proof (rule run_handler_keeps [where P = status_inv])
    show "status_inv (m\<lparr>cm_pending := remove_nth i (cm_pending m)\<rparr>)"
      using assms(1) by (simp add: status_inv_def last_status_def)
  qed (auto intro: status_inv_effects evolves_status dest: process_event_Inr)
  then show ?thesis by (simp add: m' status_inv_def last_status_def)
qed

text \<open>While a handler runs, its own reference is counted beside those of the pending operations.\<close>

lemma complete_op_cases:
  assumes "refs_surplus 0 m" and "i < length (cm_pending m)" and "complete_op host em ts i c m = Inr m'"
  obtains m1 where "run_handler host em ts (cm_pending m ! i) c
      (m\<lparr>cm_pending := remove_nth i (cm_pending m)\<rparr>) = Inr m1" "m' = release_ref m1" "refs_surplus 1 m1"
proof -
  from assms(3) obtain m1 where run: "run_handler host em ts (cm_pending m ! i) c
        (m\<lparr>cm_pending := remove_nth i (cm_pending m)\<rparr>) = Inr m1" and m': "m' = release_ref m1"
    by (auto simp: complete_op_def rbind_eq_Inr_iff)
  have "refs_surplus 1 m1"
    using run
  proof (rule run_handler_keeps [where P = "refs_surplus 1"])
    show "refs_surplus 1 (m\<lparr>cm_pending := remove_nth i (cm_pending m)\<rparr>)"
      using assms(1) length_remove_nth [OF assms(2)] by (simp add: refs_surplus_def)
  qed (auto intro: refs_surplus_effects evolves_refs dest: process_event_Inr)
  with run m' show ?thesis by (rule that)
qed

lemma complete_op_refs:
  assumes "refs_surplus 0 m" and "i < length (cm_pending m)" and "complete_op host em ts i c m = Inr m'"
  shows "refs_surplus 0 m'"
  using assms
  by (rule complete_op_cases) (simp add: refs_surplus_def counted_ref_dtor_def decrease_of_nat)

text \<open>When nothing is pending any more, the last handler has called \<open>on_returned\<close>.\<close>

lemma last_handler_notifies:
  assumes "refs_surplus 0 m" and "i < length (cm_pending m)" and "complete_op host em ts i c m = Inr m'"
    and "cm_pending m' = []"
  shows "getRefCount (cm_refs m') = 0 \<and> last (cm_io m') = NotifyReturned"
  using assms(1-3)
proof (rule complete_op_cases)
  fix m1
  assume m1: "m' = release_ref m1" "refs_surplus 1 m1"
  with assms(4) have "reference_count (cm_refs m1) = 1" "rc_action (cm_refs m1)"
    by (simp_all add: refs_surplus_def)
  then show ?thesis
    by (simp add: m1(1) release_ref_def counted_ref_dtor_def decreaseRefCount_def Let_def do_io_def getRefCount_def)
qed

lemma user_event_wf: "user_event e \<Longrightarrow> event_wf e"
  by (cases e) simp_all

lemma cm_step_invariants:
  assumes "cm_step host em m m'" and "status_inv m \<and> refs_surplus 0 m"
  shows "status_inv m' \<and> refs_surplus 0 m'"
  using assms
proof (cases rule: cm_step.cases)
  case (user e ts)
  then have "evolves m m' (fst (cn_spec ts (cm_state m) e)) (snd (cn_spec ts (cm_state m) e))
      (event_starts (cm_state m) e)"
    using process_event_Inr user_event_wf by blast
  with assms(2) show ?thesis by (blast intro: evolves_status evolves_refs)
next
  case (completion i c ts)
  with assms(2) show ?thesis by (blast intro: complete_op_status complete_op_refs)
qed

lemma cm_reachable_invariants:
  "cm_reachable host em m \<Longrightarrow> status_inv m \<and> refs_surplus 0 m"
proof (induction rule: cm_reachable.induct)
  case start
  show ?case
    by (simp add: cm_initiate_def cm_ctor_def enter_defs cm_effect_defs status_inv_def
        last_status_def refs_surplus_def rc_defs)
next
  case (step m m')
  show ?case by (rule cm_step_invariants [OF step.hyps(2) step.IH])
qed

section \<open>Invariants of the reports\<close>

text \<open>A property of single signals that all signals of a machine have.\<close>

definition signals_all :: "(cn_signal \<Rightarrow> bool) \<Rightarrow> clientnode_machine \<Rightarrow> bool" where
  "signals_all Q m \<longleftrightarrow> list_all Q (cm_signals m)"

lemma signals_all_effects:
  "signals_all Q m \<Longrightarrow> signals_all Q (log_to t e m)"
  "signals_all Q m \<Longrightarrow> Q s \<Longrightarrow> signals_all Q (emit s m)"
  "signals_all Q m \<Longrightarrow> signals_all Q (do_io a m)"
  "signals_all Q m \<Longrightarrow> signals_all Q (start_async op m)"
  "signals_all Q m \<Longrightarrow> signals_all Q (m\<lparr>cm_rcvbufs := n\<rparr>)"
  by (simp_all add: signals_all_def cm_effect_defs)

lemma evolves_signals:
  "signals_all Q m \<Longrightarrow> evolves m m' st sigs ops \<Longrightarrow> list_all Q sigs \<Longrightarrow> signals_all Q m'"
  by (simp add: signals_all_def evolves_def)

text \<open>
  Handlers add nothing but reports on sent messages to what the events
  produce, so a property is invariant if the table \<open>cn_spec\<close> and these
  reports have it.
\<close>

lemma cm_reachable_signals:
  assumes "cm_reachable host em m"
    and table: "\<And>ts st e. list_all Q (snd (cn_spec ts st e))"
    and send: "\<And>r. message_id r = 0 \<Longrightarrow> Q (SendReport r)"
  shows "signals_all Q m"
  using assms(1)
proof (induction rule: cm_reachable.induct)
  case start
  show ?case by (simp add: signals_all_def cm_initiate_def cm_ctor_def enter_defs cm_effect_defs)
next
  case (step m m')
  have event: "signals_all Q m2" if "signals_all Q m1" "event_wf e" "process_event host ts e m1 = Inr m2"
    for e ts m1 m2
    using process_event_Inr [OF that(2,3)] evolves_signals [OF that(1) _ table] by blast
  from step.hyps(2) show ?case
  proof (cases rule: cm_step.cases)
    case (user e ts)
    with step.IH event user_event_wf show ?thesis by blast
  next
    case (completion i c ts)
    then obtain m1 where run: "run_handler host em ts (cm_pending m ! i) c
          (m\<lparr>cm_pending := remove_nth i (cm_pending m)\<rparr>) = Inr m1" and m': "m' = release_ref m1"
      by (auto simp: complete_op_def rbind_eq_Inr_iff)
    have "signals_all Q m1"
      using run
    proof (rule run_handler_keeps [where P = "signals_all Q"])
      show "signals_all Q (m\<lparr>cm_pending := remove_nth i (cm_pending m)\<rparr>)"
        using step.IH by (simp add: signals_all_def)
    qed (auto intro: signals_all_effects send event)
    then show ?thesis by (simp add: m' signals_all_def)
  qed
qed

end
