(* ===== verification/ClientNode.thy ===== *)
theory ClientNode
  imports ClientFacts
begin

text \<open>
  \<open>include/clientnode/clientnode.hpp\<close> and \<open>src/clientnode/clientnode.cpp\<close>: the
  facade the application uses.  The tokenizer is Boost's: a parameter
  \<open>tokenize\<close> (separator characters, then the string), of which the locale
  \<open>separator_tokenizer\<close> states the documented behaviour of
  \<open>boost::char_separator\<close> with default arguments.
\<close>

section \<open>The tokenizer\<close>

locale separator_tokenizer =
  fixes tokenize :: "string \<Rightarrow> string \<Rightarrow> string list"
  assumes tok_empty: "tokenize ds [] = []"
    and tok_skip: "d \<in> set ds \<Longrightarrow> tokenize ds (d # s) = tokenize ds s"
    and tok_last: "w \<noteq> [] \<Longrightarrow> set w \<inter> set ds = {} \<Longrightarrow> tokenize ds w = [w]"
    and tok_word: "w \<noteq> [] \<Longrightarrow> set w \<inter> set ds = {} \<Longrightarrow> d \<in> set ds \<Longrightarrow>
      tokenize ds (w @ d # s) = w # tokenize ds s"
    and tok_chars: "w \<in> set (tokenize ds s) \<Longrightarrow> w \<noteq> [] \<and> set w \<inter> set ds = {}"
begin

lemma tok_leading: "set w \<subseteq> set ds \<Longrightarrow> tokenize ds (w @ s) = tokenize ds s"
  by (induction w) (simp_all add: tok_skip)

lemma tok_two:
  assumes "w1 \<noteq> []" "set w1 \<inter> set ds = {}" "w2 \<noteq> []" "set w2 \<inter> set ds = {}"
    and "sep \<noteq> []" "set sep \<subseteq> set ds"
  shows "tokenize ds (w1 @ sep @ w2) = [w1, w2]"
proof -
  from assms(5,6) obtain d sep' where sep: "sep = d # sep'" "d \<in> set ds" "set sep' \<subseteq> set ds"
    by (cases sep) auto
  then show ?thesis
    using tok_word [OF assms(1,2) sep(2), of "sep' @ w2"] tok_leading [OF sep(3)]
      tok_last [OF assms(3,4)]
    by simp
qed

end

text \<open>A tokenizer with this behaviour: the maximal runs of characters that are no separators.\<close>

fun split_tokens :: "string \<Rightarrow> string \<Rightarrow> string \<Rightarrow> string list" where
  "split_tokens ds cur [] = (if cur = [] then [] else [cur])"
| "split_tokens ds cur (c # s) =
     (if c \<in> set ds then (if cur = [] then split_tokens ds [] s else cur # split_tokens ds [] s)
      else split_tokens ds (cur @ [c]) s)"

definition char_separator_tokens :: "string \<Rightarrow> string \<Rightarrow> string list" where
  "char_separator_tokens ds s = split_tokens ds [] s"

lemma split_tokens_word:
  "set w \<inter> set ds = {} \<Longrightarrow> split_tokens ds cur (w @ s) = split_tokens ds (cur @ w) s"
  by (induction w arbitrary: cur) simp_all

lemma split_tokens_chars:
  "set cur \<inter> set ds = {} \<Longrightarrow> w \<in> set (split_tokens ds cur s) \<Longrightarrow> w \<noteq> [] \<and> set w \<inter> set ds = {}"
  by (induction ds cur s rule: split_tokens.induct) (auto split: if_splits)

interpretation cst: separator_tokenizer char_separator_tokens
proof unfold_locales
  fix ds w :: string
  assume "w \<noteq> []" "set w \<inter> set ds = {}"
  then show "char_separator_tokens ds w = [w]"
    using split_tokens_word [of w ds "[]" "[]"] by (simp add: char_separator_tokens_def)
next
  fix ds w s :: string and d :: char
  assume "w \<noteq> []" "set w \<inter> set ds = {}" "d \<in> set ds"
  then show "char_separator_tokens ds (w @ d # s) = w # char_separator_tokens ds s"
    using split_tokens_word [of w ds "[]" "d # s"] by (simp add: char_separator_tokens_def)
next
  fix ds s w :: string
  assume "w \<in> set (char_separator_tokens ds s)"
  then show "w \<noteq> [] \<and> set w \<inter> set ds = {}"
    unfolding char_separator_tokens_def by (rule split_tokens_chars [rotated]) simp
qed (simp_all add: char_separator_tokens_def)

section \<open>parseDestinationString\<close>

text \<open>\<open>host\<close> and \<open>service\<close> are out parameters, assigned as far as the parse gets.\<close>

definition parseDestinationString ::
  "(string \<Rightarrow> string \<Rightarrow> string list) \<Rightarrow> string \<Rightarrow> string \<Rightarrow> string \<Rightarrow> bool \<times> string \<times> string" where
  "parseDestinationString tokenize host_name service where_str =
     (case tokenize '' '' where_str of
        [] \<Rightarrow> (False, host_name, service)
      | t1 # rest1 \<Rightarrow>
         (case rest1 of
            [] \<Rightarrow> (False, t1, service)
          | t2 # rest2 \<Rightarrow> if rest2 \<noteq> [] then (False, t1, t2) else (True, t1, t2)))"

lemma parse_success_iff:
  "fst (parseDestinationString tokenize h s w) \<longleftrightarrow> length (tokenize '' '' w) = 2"
  by (auto simp: parseDestinationString_def split: list.splits)

context separator_tokenizer
begin

lemma tok_two_padded:
  assumes "w1 \<noteq> []" "set w1 \<inter> set ds = {}" "w2 \<noteq> []" "set w2 \<inter> set ds = {}"
    and "sep \<noteq> []" "set sep \<subseteq> set ds" "set pre \<subseteq> set ds" "set post \<subseteq> set ds"
  shows "tokenize ds (pre @ w1 @ sep @ w2 @ post) = [w1, w2]"
proof -
  from assms(5,6) obtain d sep' where sep: "sep = d # sep'" "d \<in> set ds" "set sep' \<subseteq> set ds"
    by (cases sep) auto
  have "tokenize ds (w2 @ post) = [w2]"
  proof (cases post)
    case Nil
    then show ?thesis using tok_last [OF assms(3,4)] by simp
  next
    case (Cons c post')
    then show ?thesis
      using tok_word [OF assms(3,4), of c post'] tok_leading [of post' ds "[]"] assms(8) tok_empty by simp
  qed
  then show ?thesis
    using tok_leading [OF assms(7)] tok_word [OF assms(1,2) sep(2), of "sep' @ w2 @ post"]
      tok_leading [OF sep(3)] sep(1)
    by simp
qed

lemma parse_padded:
  assumes "h \<noteq> []" "CHR '' '' \<notin> set h" "s \<noteq> []" "CHR '' '' \<notin> set s"
    and "sep \<noteq> []" "set sep \<subseteq> {CHR '' ''}" "set pre \<subseteq> {CHR '' ''}" "set post \<subseteq> {CHR '' ''}"
  shows "parseDestinationString tokenize h0 s0 (pre @ h @ sep @ s @ post) = (True, h, s)"
proof -
  have "tokenize '' '' (pre @ h @ sep @ s @ post) = [h, s]"
    using assms by (intro tok_two_padded) auto
  then show ?thesis by (simp add: parseDestinationString_def)
qed

lemma parse_two_words:
  assumes "h \<noteq> []" "CHR '' '' \<notin> set h" "s \<noteq> []" "CHR '' '' \<notin> set s"
  shows "parseDestinationString tokenize h0 s0 (h @ '' '' @ s) = (True, h, s)"
proof -
  have "tokenize '' '' (h @ '' '' @ s) = [h, s]"
    using assms by (intro tok_two) auto
  then show ?thesis by (simp add: parseDestinationString_def)
qed

lemma parse_one_word:
  assumes "CHR '' '' \<notin> set w"
  shows "\<not> fst (parseDestinationString tokenize h0 s0 w)"
  using assms tok_empty tok_last [of w "'' ''"]
  by (cases "w = []") (auto simp: parse_success_iff)

end

section \<open>ClientNode\<close>

text \<open>
  \<open>cn_slots\<close>, \<open>cn_status_slots\<close> and \<open>cn_send_slots\<close> are the connections of the
  three signals, by number in the order in which they were made;
  \<open>cn_rcvMessageConnection\<close> is the one remembered by the node.
\<close>

record client_node =
  cn_machine :: clientnode_machine
  cn_last_msg_id :: uint4b
  cn_slots :: "nat list"
  cn_status_slots :: "nat list"
  cn_send_slots :: "nat list"
  cn_next_slot :: nat
  cn_rcvMessageConnection :: "nat option"

definition client_node_ctor :: client_node where
  "client_node_ctor = \<lparr>cn_machine = cm_initiate, cn_last_msg_id = 0, cn_slots = [],
     cn_status_slots = [], cn_send_slots = [], cn_next_slot = 0, cn_rcvMessageConnection = None\<rparr>"

definition connectRcvMessage :: "client_node \<Rightarrow> client_node \<times> nat" where
  "connectRcvMessage cn =
     (let cn = (case cn_rcvMessageConnection cn of
                  None \<Rightarrow> cn
                | Some old \<Rightarrow> cn\<lparr>cn_slots := removeAll old (cn_slots cn)\<rparr>);
          new = cn_next_slot cn
      in (cn\<lparr>cn_slots := cn_slots cn @ [new], cn_next_slot := Suc new,
             cn_rcvMessageConnection := Some new\<rparr>, new))"

definition connectConnectionStatusReport :: "client_node \<Rightarrow> client_node \<times> nat" where
  "connectConnectionStatusReport cn =
     (let new = cn_next_slot cn
      in (cn\<lparr>cn_status_slots := cn_status_slots cn @ [new], cn_next_slot := Suc new\<rparr>, new))"

definition connectSendReport :: "client_node \<Rightarrow> client_node \<times> nat" where
  "connectSendReport cn =
     (let new = cn_next_slot cn
      in (cn\<lparr>cn_send_slots := cn_send_slots cn @ [new], cn_next_slot := Suc new\<rparr>, new))"

text \<open>The connections a signal calls, in the order in which they were made.\<close>

fun slots_of :: "client_node \<Rightarrow> cn_signal \<Rightarrow> nat list" where
  "slots_of cn (RcvMessage msg) = cn_slots cn"
| "slots_of cn (ConnectStatReport rprt) = cn_status_slots cn"
| "slots_of cn (SendReport rprt) = cn_send_slots cn"

definition with_machine :: "client_node \<Rightarrow> clientnode_machine result \<Rightarrow> client_node result" where
  "with_machine cn r = rbind r (\<lambda>m. Inr (cn\<lparr>cn_machine := m\<rparr>))"

definition connectTo ::
  "(string \<Rightarrow> string \<Rightarrow> string list) \<Rightarrow> endianness \<Rightarrow> thread_start \<Rightarrow> server_location
     \<Rightarrow> client_node \<Rightarrow> client_node result" where
  "connectTo tokenize host ts loc cn =
     (let (ok, host_name, service) = parseDestinationString tokenize '''' '''' (where_string loc) in
      if ok
      then with_machine cn (process_event host ts (EvtConnectRequest host_name service) (cn_machine cn))
      else
        (let rprt = csr_init\<lparr>newstate := CNST_DISCONNECTED,
                    statechange_reason := STCHR_CONNECT_FAILED,
                    csr_msg := ''Invalid remote site identifier''\<rparr>
         in Inr (cn\<lparr>cn_machine := emit (ConnectStatReport rprt) (cn_machine cn)\<rparr>)))"

definition getNextMessageId :: "client_node \<Rightarrow> client_node \<times> uint4b" where
  "getNextMessageId cn =
     (let next_id = cn_last_msg_id cn + 1 in (cn\<lparr>cn_last_msg_id := next_id\<rparr>, next_id))"

definition sendUserMessage ::
  "endianness \<Rightarrow> thread_start \<Rightarrow> byte list \<Rightarrow> unique_user_id \<Rightarrow> client_node
     \<Rightarrow> (client_node \<times> uint4b) result" where
  "sendUserMessage host ts msg recipient cn =
     (let usermsg = num_of_stringwrap (sw_ctor msg) recipient (uuid_ctor 0) 0;
          (cn, next_id) = getNextMessageId cn;
          usermsg = usermsg\<lparr>num_msg_id := next_id\<rparr>
      in rbind (with_machine cn (process_event host ts (EvtSendMsg usermsg) (cn_machine cn))) (\<lambda>cn.
         Inr (cn, num_msg_id usermsg)))"

text \<open>The overload for a string that the caller keeps: it sends a copy.\<close>

definition sendUserMessage_copy ::
  "endianness \<Rightarrow> thread_start \<Rightarrow> byte list \<Rightarrow> unique_user_id \<Rightarrow> client_node
     \<Rightarrow> (client_node \<times> uint4b) result" where
  "sendUserMessage_copy host ts msg recipient cn =
     (let msg_copy = msg in sendUserMessage host ts msg_copy recipient cn)"

declare sendUserMessage_copy_def [simp]

definition disconnect :: "endianness \<Rightarrow> thread_start \<Rightarrow> client_node \<Rightarrow> client_node result" where
  "disconnect host ts cn =
     with_machine cn (process_event host ts EvtDisconnectRequest (cn_machine cn))"

section \<open>catchThread\<close>

datatype thread_handle = NotAThread | AThread
datatype join_outcome = JoinFinished | JoinTimedOut | JoinThrew

definition timed_join :: "join_outcome \<Rightarrow> thread_handle \<Rightarrow> thread_handle" where
  "timed_join j t = (case j of JoinFinished \<Rightarrow> NotAThread | _ \<Rightarrow> t)"

text \<open>The second component says whether the thread was interrupted and detached.\<close>

definition catchThread :: "join_outcome \<Rightarrow> thread_handle \<Rightarrow> thread_handle \<times> bool" where
  "catchThread j t =
     (let t = timed_join j t in
      if t = NotAThread then (t, False)
      else (NotAThread, True))"

lemmas client_node_defs = connectTo_def sendUserMessage_def disconnect_def with_machine_def
  getNextMessageId_def num_of_stringwrap_def

section \<open>Facts about the facade\<close>

text \<open>\<open>send_all\<close> sends messages one after the other and lists the identifiers returned.\<close>

fun send_all ::
  "endianness \<Rightarrow> thread_start \<Rightarrow> (byte list \<times> unique_user_id) list \<Rightarrow> client_node
     \<Rightarrow> (client_node \<times> uint4b list) result" where
  "send_all host ts [] cn = Inr (cn, [])"
| "send_all host ts ((msg, to) # rest) cn =
     rbind (sendUserMessage host ts msg to cn) (\<lambda>p.
     rbind (send_all host ts rest (fst p)) (\<lambda>q. Inr (fst q, snd p # snd q)))"

lemma sendUserMessage_id:
  "sendUserMessage host ts msg to cn = Inr (cn', i) \<Longrightarrow>
   i = cn_last_msg_id cn + 1 \<and> cn_last_msg_id cn' = i"
  by (auto simp: client_node_defs Let_def rbind_eq_Inr_iff)

lemma send_all_ids:
  "send_all host ts msgs cn = Inr (cn', ids) \<Longrightarrow>
   ids = map (\<lambda>k. cn_last_msg_id cn + of_nat (Suc k)) [0..<length msgs]"
proof (induction msgs arbitrary: cn ids)
  case Nil
  then show ?case by simp
next
  case (Cons p rest)
  obtain msg to where p: "p = (msg, to)" by (cases p)
  from Cons.prems p obtain cn1 i ids' where
      send: "sendUserMessage host ts msg to cn = Inr (cn1, i)"
      and rest: "send_all host ts rest cn1 = Inr (cn', ids')" and ids: "ids = i # ids'"
    by (auto simp: rbind_eq_Inr_iff)
  from sendUserMessage_id [OF send] Cons.IH [OF rest] ids show ?case
    by (simp add: upt_conv_Cons map_Suc_upt [symmetric] add.assoc del: upt_Suc)
qed

lemma ids_distinct:
  assumes "n \<le> 2 ^ 32"
  shows "distinct (map (\<lambda>k. x + of_nat (Suc k) :: uint4b) [0..<n])"
proof -
  have "k = l" if "k < n" "l < n" "(of_nat k :: uint4b) = of_nat l" for k l
  proof -
    from that(3) have "unat (of_nat k :: uint4b) = unat (of_nat l :: uint4b)" by simp
    with that(1,2) assms show ?thesis
      by (simp add: unat_of_nat take_bit_nat_eq_self)
  qed
  then show ?thesis by (auto simp: distinct_map inj_on_def)
qed

end
