(* ===== verification/ClientProps.thy ===== *)
theory ClientProps
  imports ClientNode
begin

text \<open>
  The properties of the client: the machine against its table, its failures,
  the invariants of reachable machines, the handlers of a connection attempt
  and of received packets, and the facade.
\<close>

section \<open>Runs used as examples\<close>

definition demo_endpoint :: "nat \<Rightarrow> endpoint" where
  "demo_endpoint n = \<lparr>ep_address = ''host'', ep_port = of_nat n\<rparr>"

definition demo_em :: "error_code \<Rightarrow> string" where
  "demo_em e = ''I/O error''"

lemma user_reaches:
  assumes "cm_reachable host em m" and "user_event e" and "event_ok (cm_state m) e"
  shows "\<exists>m'. cm_reachable host em m' \<and>
     evolves m m' (fst (cn_spec ts (cm_state m) e)) (snd (cn_spec ts (cm_state m) e))
       (event_starts (cm_state m) e)"
proof -
  from process_event_effect [OF assms(3), of host ts] obtain m' where
      m': "process_event host ts e m = Inr m'"
        "evolves m m' (fst (cn_spec ts (cm_state m) e)) (snd (cn_spec ts (cm_state m) e))
           (event_starts (cm_state m) e)"
    by blast
  with assms(1,2) show ?thesis by (blast intro: cm_reachable.step cm_step.user)
qed

lemma initiate_simps:
  "cm_state cm_initiate = StateWaiting" "cm_pending cm_initiate = []" "cm_signals cm_initiate = []"
  by (simp_all add: cm_initiate_def cm_ctor_def enter_defs cm_effect_defs)

lemma negotiating_reachable:
  "\<exists>m. cm_reachable host em m \<and> cm_state m = StateNegotiating \<and> cm_signals m = [] \<and>
     cm_pending m = [OpResolve ''host'' ''port'']"
  using user_reaches [OF cm_reachable.start, where e = "EvtConnectRequest ''host'' ''port''"
      and ts = ThreadStarted, of host em]
  by (auto simp: initiate_simps evolves_def)

lemma connecting_reachable:
  "\<exists>m. cm_reachable host em m \<and> cm_state m = StateNegotiating \<and> cm_signals m = [] \<and>
     cm_pending m = [OpConnect [demo_endpoint 1]]"
proof -
  from negotiating_reachable [of host em] obtain m where m: "cm_reachable host em m"
      "cm_state m = StateNegotiating" "cm_signals m = []"
      "cm_pending m = [OpResolve ''host'' ''port'']" by blast
  have "\<exists>m'. complete_op host em ThreadStarted 0 (ResolveDone Success [demo_endpoint 1]) m = Inr m' \<and>
      cm_state m' = cm_state m \<and> cm_signals m' = [] \<and> cm_pending m' = [OpConnect [demo_endpoint 1]]"
    using m(3,4) by (simp add: complete_op_def resolveHandler_def Let_def remove_nth_def cm_effect_defs)
  then obtain m' where m': "complete_op host em ThreadStarted 0 (ResolveDone Success [demo_endpoint 1]) m = Inr m'"
      "cm_state m' = cm_state m" "cm_signals m' = []" "cm_pending m' = [OpConnect [demo_endpoint 1]]"
    by blast
  have "cm_step host em m m'"
    by (rule cm_step.completion [OF _ _ m'(1)]) (simp_all add: m(4))
  from cm_reachable.step [OF m(1) this] m' m(2) show ?thesis by auto
qed

text \<open>Completion of a connection attempt.\<close>

lemma connect_success:
  assumes "cm_state m = StateNegotiating" and "cm_pending m = [OpConnect (ep # rest)]"
  shows "\<exists>m'. complete_op host em ts 0 (ConnectDone Success) m = Inr m' \<and>
     cm_state m' = StateConnected \<and> cm_pending m' = [OpReadHeader] \<and>
     cm_signals m' = cm_signals m @ [ConnectStatReport \<lparr>newstate = CNST_CONNECTED,
        statechange_reason = STCHR_USER_REQUESTED, csr_msg = ''Connection succeeded.''\<rparr>]"
proof -
  let ?m = "start_read_header (log_to ToInfo (LogText (''connectHandler invoked. (host '' @ ep_address ep @ '')''))
      (m\<lparr>cm_pending := []\<rparr>))"
  have st: "cm_state ?m = StateNegotiating" "cm_pending ?m = [OpReadHeader]" "cm_signals ?m = cm_signals m"
    using assms(1) by (simp_all add: start_read_header_def cm_effect_defs)
  from process_event_effect [of ?m "EvtConnectReport True ''Connection succeeded.''" host ts] st
  obtain m1 where "process_event host ts (EvtConnectReport True ''Connection succeeded.'') ?m = Inr m1"
      "evolves ?m m1 StateConnected [ConnectStatReport \<lparr>newstate = CNST_CONNECTED,
        statechange_reason = STCHR_USER_REQUESTED, csr_msg = ''Connection succeeded.''\<rparr>] []"
    by auto
  with assms st show ?thesis
    by (auto simp: complete_op_def connectHandler_def remove_nth_def Let_def evolves_def)
qed

lemma connected_reachable:
  "\<exists>m. cm_reachable host em m \<and> cm_state m = StateConnected \<and> cm_pending m = [OpReadHeader]"
proof -
  from connecting_reachable [of host em] obtain m where m: "cm_reachable host em m"
      "cm_state m = StateNegotiating" "cm_pending m = [OpConnect [demo_endpoint 1]]" by blast
  from connect_success [OF m(2,3), of host em ThreadStarted] obtain m' where
      m': "complete_op host em ThreadStarted 0 (ConnectDone Success) m = Inr m'"
        "cm_state m' = StateConnected" "cm_pending m' = [OpReadHeader]" by blast
  have "cm_step host em m m'"
    by (rule cm_step.completion [OF _ _ m'(1)]) (simp_all add: m(3))
  from cm_reachable.step [OF m(1) this] m' show ?thesis by auto
qed

text \<open>Concrete machines for the properties of single events.\<close>

definition demo_machine :: "cn_state \<Rightarrow> async_op list \<Rightarrow> clientnode_machine" where
  "demo_machine st ops = cm_initiate\<lparr>cm_state := st, cm_pending := ops, cm_rcvbufs := 1\<rparr>"

definition demo_message :: near_user_message where
  "demo_message = \<lparr>num_msg_id = 1, num_recipient = user_id_none, num_sender = user_id_none,
     num_stringwrap = \<lparr>sw_message_string = [0x68, 0x69]\<rparr>\<rparr>"

lemma demo_machine_simps [simp]:
  "cm_state (demo_machine st ops) = st" "cm_pending (demo_machine st ops) = ops"
  "cm_signals (demo_machine st ops) = []"
  by (simp_all add: demo_machine_def initiate_simps)

lemma demo_message_size: "num_size demo_message = 23"
  by (simp add: demo_message_def num_size_def sw_size_def char_size_def)

section \<open>Events\<close>

text \<open>
  C7. Processing an event does what the table \<open>cn_spec\<close> says: new state,
  emitted reports, and the operations started, in every state and for every
  event; a connection request whose thread cannot be started ends in
  \<open>StateWaiting\<close> again with a report.  The only exceptions are a message larger
  than a vector can be and an empty received packet.
\<close>

theorem events_follow_table:
  assumes "event_ok (cm_state m) e"
  shows "\<exists>m'. process_event host ts e m = Inr m' \<and>
     (cm_state m', cm_signals m') =
       (fst (cn_spec ts (cm_state m) e), cm_signals m @ snd (cn_spec ts (cm_state m) e)) \<and>
     cm_pending m' = cm_pending m @ event_starts (cm_state m) e"
  using process_event_effect [OF assms, of host ts] by (auto simp: evolves_def)

lemma events_follow_table_witness:
  "\<exists>m'. process_event LittleEndian ThreadUnknownException (EvtConnectRequest ''h'' ''s'')
       (demo_machine StateWaiting []) = Inr m' \<and>
     (cm_state m', cm_signals m') =
       (fst (cn_spec ThreadUnknownException StateWaiting (EvtConnectRequest ''h'' ''s'')),
        [] @ snd (cn_spec ThreadUnknownException StateWaiting (EvtConnectRequest ''h'' ''s''))) \<and>
     cm_pending m' = [] @ event_starts StateWaiting (EvtConnectRequest ''h'' ''s'')"
  using events_follow_table [of "demo_machine StateWaiting []" "EvtConnectRequest ''h'' ''s''"
      LittleEndian ThreadUnknownException]
  by simp

text \<open>
  An event fails exactly in two cases, both while connected: sending a
  message whose packet does not fit a vector throws \<open>std::length_error\<close>, and
  receiving an empty packet reads outside its buffer.
\<close>

lemma event_failures:
  assumes "event_wf e"
  shows "process_event host ts e m = Inl f \<longleftrightarrow>
     cm_state m = StateConnected \<and>
     ((\<exists>msg. e = EvtSendMsg msg \<and> vector_max_size < num_size msg + 4 \<and> f = Throw LengthError) \<or>
      (\<exists>data. e = EvtRcvdMessage data \<and> sd_memblock data = [] \<and> f = Undefined ReadOutOfBounds))"
proof (cases "event_ok (cm_state m) e")
  case True
  from process_event_effect [OF this, of host ts] obtain m' where "process_event host ts e m = Inr m'"
    by blast
  moreover have "\<not> (cm_state m = StateConnected \<and>
     ((\<exists>msg. e = EvtSendMsg msg \<and> vector_max_size < num_size msg + 4) \<or>
      (\<exists>data. e = EvtRcvdMessage data \<and> sd_memblock data = [])))"
    using True by (auto simp: sd_ok_def sd_size_def)
  ultimately show ?thesis by auto
next
  case False
  have wf: "sd_ok data \<and> sd_size data = length (sd_memblock data)" if "e = EvtRcvdMessage data" for data
    using assms that sd_of_block_simps(1,3) [of "sd_memblock data"] by simp
  with False have "cm_state m = StateConnected \<and>
     ((\<exists>msg. e = EvtSendMsg msg \<and> vector_max_size < num_size msg + 4) \<or>
      (\<exists>data. e = EvtRcvdMessage data \<and> sd_memblock data = []))"
    by (cases "cm_state m"; cases e) auto
  with process_event_fails [OF assms False, of host ts] show ?thesis by auto
qed



text \<open>
  The reference count of the machine is the number of pending operations,
  so the destructor waits for the handlers exactly if some have not returned.
\<close>

lemma destructor_waits_for_handlers:
  assumes "cm_reachable host em m" and "length (cm_pending m) < 2 ^ 32"
  shows "unat (getRefCount (cm_refs m)) = length (cm_pending m) \<and>
     (snd (cm_dtor m) \<longleftrightarrow> cm_pending m \<noteq> [])"
proof -
  from cm_reachable_invariants [OF assms(1)]
  have count: "reference_count (cm_refs m) = of_nat (length (cm_pending m))"
    by (simp add: refs_surplus_def)
  have "cm_refs (fst (cm_dtor m)) = cm_refs m"
    by (simp add: cm_dtor_def stopIOOperations_def do_io_def)
  with count of_nat_32_eq_0 [OF assms(2)] assms(2) show ?thesis
    by (simp add: cm_dtor_def stopIOOperations_def do_io_def getRefCount_def unat_of_nat
        take_bit_nat_eq_self word_neq_0_conv [symmetric] del: word_neq_0_conv)
qed

text \<open>
  Every transition into \<open>StateWaiting\<close> first closes the socket, then stops
  the service, then resets it, as its last actions.
\<close>

lemma entering_waiting_stops_io:
  assumes "process_event host ts e m = Inr m'" and "event_wf e"
    and "cm_state m \<noteq> StateWaiting" and "cm_state m' = StateWaiting"
  shows "\<exists>ios. cm_io m' = cm_io m @ ios @ [CloseSocket, StopService, ResetService]"
proof -
  from process_event_Inr [OF assms(2,1)] assms(4)
  have to: "fst (cn_spec ts (cm_state m) e) = StateWaiting" by (simp add: evolves_def)
  from assms(3) to assms(1) show ?thesis
    by (cases "cm_state m"; cases e)
      (auto simp: process_event_def dispatch_def react_defs enter_defs cm_effect_defs
        split: if_splits)
qed

text \<open>
  No report on a sent message says which message it is about: in every run
  the identifier in all reports is zero.
\<close>

lemma send_reports_name_no_message:
  assumes "cm_reachable host em m" and "SendReport r \<in> set (cm_signals m)"
  shows "message_id r = 0"
proof -
  have "signals_all (\<lambda>s. case s of SendReport r \<Rightarrow> message_id r = 0 | _ \<Rightarrow> True) m"
  proof (rule cm_reachable_signals [OF assms(1)])
    show "list_all (\<lambda>s. case s of SendReport r \<Rightarrow> message_id r = 0 | _ \<Rightarrow> True) (snd (cn_spec ts st e))"
      for ts st e
      by (cases "(ts, st, e)" rule: cn_spec.cases)
        (auto simp: disconnected_rprt_def not_sent_rprt_def delivered_def split: option.split)
  qed simp
  with assms(2) show ?thesis by (auto simp: signals_all_def list_all_iff)
qed

section \<open>Handlers\<close>

text \<open>The attempts on the addresses of a host, all failing, one after the other.\<close>

fun fail_connects ::
  "endianness \<Rightarrow> (error_code \<Rightarrow> string) \<Rightarrow> thread_start \<Rightarrow> error_code list \<Rightarrow> handler" where
  "fail_connects host em ts [] m = Inr m"
| "fail_connects host em ts (e # es) m =
     rbind (complete_op host em ts 0 (ConnectDone e) m) (fail_connects host em ts es)"

lemma connect_retry:
  assumes "e \<noteq> Success" and "rest \<noteq> []" and "cm_pending m = [OpConnect (ep # rest)]"
  shows "\<exists>m'. complete_op host em ts 0 (ConnectDone e) m = Inr m' \<and> cm_state m' = cm_state m \<and>
     cm_signals m' = cm_signals m \<and> cm_pending m' = [OpConnect rest]"
  using assms
  by (simp add: complete_op_def connectHandler_def remove_nth_def cm_effect_defs Let_def)

lemma connect_give_up:
  assumes "e \<noteq> Success" and "e \<noteq> OperationAborted" and "cm_state m = StateNegotiating"
    and "cm_pending m = [OpConnect [ep]]"
  shows "\<exists>m'. complete_op host em ts 0 (ConnectDone e) m = Inr m' \<and> cm_state m' = StateWaiting \<and>
     cm_signals m' = cm_signals m @ [disconnected_rprt STCHR_CONNECT_FAILED (em e)] \<and> cm_pending m' = []"
proof -
  let ?m = "log_to ToInfo (LogText (''connectHandler invoked. (host '' @ ep_address ep @ '')'')) (m\<lparr>cm_pending := []\<rparr>)"
  have st: "cm_state ?m = StateNegotiating" "cm_pending ?m = []" "cm_signals ?m = cm_signals m"
    using assms(3) by (simp_all add: cm_effect_defs)
  from process_event_effect [of ?m "EvtConnectReport False (em e)" host ts] st obtain m1 where
      "process_event host ts (EvtConnectReport False (em e)) ?m = Inr m1"
      "evolves ?m m1 StateWaiting [disconnected_rprt STCHR_CONNECT_FAILED (em e)] []"
    by auto
  with assms st show ?thesis
    by (auto simp: complete_op_def connectHandler_def remove_nth_def Let_def evolves_def)
qed

text \<open>
  C31. A connection attempt tries every address the resolver found, in order,
  before it fails, reports nothing meanwhile, and then reports the failure
  once, with the error of the last address.
\<close>

theorem connect_tries_all_addresses:
  assumes "cm_state m = StateNegotiating" and "cm_pending m = [OpConnect eps]" and "eps \<noteq> []"
    and "length es = length eps" and "Success \<notin> set es" and "last es \<noteq> OperationAborted"
  shows "\<exists>m'. fail_connects host em ts es m = Inr m' \<and> cm_state m' = StateWaiting \<and>
     cm_pending m' = [] \<and>
     cm_signals m' = cm_signals m @ [disconnected_rprt STCHR_CONNECT_FAILED (em (last es))]"
  using assms
proof (induction eps arbitrary: es m)
  case Nil
  then show ?case by simp
next
  case (Cons ep rest)
  then obtain e es' where es: "es = e # es'" by (cases es) auto
  with Cons.prems have e: "e \<noteq> Success" by auto
  show ?case
  proof (cases "rest = []")
    case True
    with Cons.prems es have "es' = []" "e \<noteq> OperationAborted" by simp_all
    with connect_give_up [OF e this(2) Cons.prems(1), of ep host em ts] Cons.prems(2) True es
    show ?thesis by auto
  next
    case False
    from connect_retry [OF e False Cons.prems(2), of host em ts] obtain m1 where
        m1: "complete_op host em ts 0 (ConnectDone e) m = Inr m1" "cm_state m1 = cm_state m"
          "cm_signals m1 = cm_signals m" "cm_pending m1 = [OpConnect rest]"
      by blast
    have "length es' = length rest" "Success \<notin> set es'" "last es' \<noteq> OperationAborted" "last es = last es'"
      using Cons.prems(4-6) es False by (auto split: if_splits)
    with Cons.IH [OF _ m1(4) False, of es'] m1 Cons.prems(1) es show ?thesis by simp
  qed
qed

lemma connect_tries_all_addresses_witness:
  "\<exists>m'. fail_connects LittleEndian demo_em ThreadStarted [OperationAborted, OtherError 111]
       (demo_machine StateNegotiating [OpConnect [demo_endpoint 1, demo_endpoint 2]]) = Inr m' \<and>
     cm_state m' = StateWaiting \<and> cm_pending m' = [] \<and>
     cm_signals m' = [] @ [disconnected_rprt STCHR_CONNECT_FAILED (demo_em (OtherError 111))]"
  using connect_tries_all_addresses [of "demo_machine StateNegotiating [OpConnect [demo_endpoint 1, demo_endpoint 2]]"
      "[demo_endpoint 1, demo_endpoint 2]" "[OperationAborted, OtherError 111]" LittleEndian demo_em ThreadStarted]
  by simp

text \<open>The effect of a received header, for the properties of whole runs.\<close>

lemma header_handler_effect:
  assumes "cm_state m = StateConnected" and "length hdr = 4"
  shows "\<exists>m'. receiveSegmentationHeaderHandler host em ts Success 4 hdr m = Inr m' \<and>
     (case header_verdict hdr of
        Inr n \<Rightarrow> cm_state m' = StateConnected \<and> cm_signals m' = cm_signals m \<and>
          cm_pending m' = cm_pending m @ [OpReadBody n]
      | Inl why \<Rightarrow> cm_state m' = StateWaiting \<and> cm_pending m' = cm_pending m \<and>
          cm_signals m' = cm_signals m @ [disconnected_rprt STCHR_SOCKET_CLOSED why])"
proof -
  let ?m = "log_to ToInfo (LogText ''Reveive (header) handler invoked'') m"
  have st: "cm_state ?m = StateConnected" "cm_pending ?m = cm_pending m" "cm_signals ?m = cm_signals m"
    using assms(1) by (simp_all add: cm_effect_defs)
  have event: "\<exists>m'. process_event host ts (EvtDisconnected why) ?m = Inr m' \<and> cm_state m' = StateWaiting \<and>
      cm_pending m' = cm_pending m \<and> cm_signals m' = cm_signals m @ [disconnected_rprt STCHR_SOCKET_CLOSED why]" for why
    using process_event_effect [of ?m "EvtDisconnected why" host ts] st by (auto simp: evolves_def)
  have verdict: "(case body_buffer host (MsgLayerError ''Oversized packet.'') hdr of
      Inr buf \<Rightarrow> header_verdict hdr = Inr (length buf)
    | Inl (Throw e) \<Rightarrow> header_verdict hdr = Inl (exn_what e)
    | Inl (Undefined u) \<Rightarrow> False)"
    by (simp add: body_buffer_cases [OF assms(2)] header_verdict_def Let_def del: word_of_le.simps)
  show ?thesis
  proof (cases "body_buffer host (MsgLayerError ''Oversized packet.'') hdr")
    case (Inr buf)
    with verdict st show ?thesis
      by (simp add: receiveSegmentationHeaderHandler_def segm_header_length_def Let_def
          start_async_def do_io_def delete_rcvbuf_def)
  next
    case (Inl f)
    with verdict obtain e where e: "f = Throw e" "header_verdict hdr = Inl (exn_what e)"
      by (cases f) simp_all
    with Inl event [of "exn_what e"] show ?thesis
      by (auto simp: receiveSegmentationHeaderHandler_def segm_header_length_def Let_def delete_rcvbuf_def)
  qed
qed

text \<open>
  The handler of a received header, while connected, either starts the
  read of exactly the rest of the packet and changes nothing else the
  application can see, or, for a bad, oversized or undersized header, ends the
  connection and reports why; no header makes it fail.
\<close>

lemma header_handler_outcomes:
  assumes "cm_state m = StateConnected" and "length hdr = 4"
  shows "\<exists>m'. receiveSegmentationHeaderHandler host em ts Success 4 hdr m = Inr m' \<and>
     (case header_verdict hdr of
        Inr n \<Rightarrow> cm_state m' = StateConnected \<and> cm_signals m' = cm_signals m \<and>
          cm_pending m' = cm_pending m @ [OpReadBody n]
      | Inl why \<Rightarrow> cm_state m' = StateWaiting \<and> cm_pending m' = cm_pending m \<and>
          cm_signals m' = cm_signals m @ [disconnected_rprt STCHR_SOCKET_CLOSED why])"
  by (rule header_handler_effect [OF assms])

text \<open>The effect of a received body, for the properties of whole runs.\<close>

lemma body_handler_effect:
  assumes "cm_state m = StateConnected" and "body \<noteq> []"
  shows "\<exists>m'. receiveSegmentationBodyHandler host em ts Success (length body) body m = Inr m' \<and>
     cm_state m' = StateConnected \<and> cm_pending m' = cm_pending m @ [OpReadHeader] \<and>
     cm_signals m' = cm_signals m @
       (if 21 \<le> length body \<and> hd body = NUM_LAYER_ID then [RcvMessage (num_parse body)] else [])"
proof -
  have "event_ok (cm_state m) (EvtRcvdMessage (sd_of_block body))"
    using assms by simp
  from process_event_effect [OF this, of host ts] assms(1) obtain m1 where
      "process_event host ts (EvtRcvdMessage (sd_of_block body)) m = Inr m1"
      "evolves m m1 StateConnected (delivered (sd_of_block body)) []" by auto
  then show ?thesis
    by (simp add: receiveSegmentationBodyHandler_def evolves_def start_read_header_def cm_effect_defs
        delivered_def)
qed

text \<open>
  The handler of a received packet body, while connected, hands the
  message in it to the application if the body is a well-formed user message,
  drops it otherwise, and reads the next header either way.  The body
  must not be empty.
\<close>

lemma body_handler_delivers:
  assumes "cm_state m = StateConnected" and "body \<noteq> []"
  shows "\<exists>m'. receiveSegmentationBodyHandler host em ts Success (length body) body m = Inr m' \<and>
     cm_state m' = StateConnected \<and> cm_pending m' = cm_pending m @ [OpReadHeader] \<and>
     cm_signals m' = cm_signals m @
       (if 21 \<le> length body \<and> hd body = NUM_LAYER_ID then [RcvMessage (num_parse body)] else [])"
  by (rule body_handler_effect [OF assms])

section \<open>The facade\<close>

text \<open>
  The identifiers returned for sent messages are all different, until
  \<open>2 ^ 32\<close> of them have been sent.
\<close>

lemma message_ids_distinct:
  assumes "send_all host ts msgs cn = Inr (cn', ids)" and "length msgs \<le> 2 ^ 32"
  shows "distinct ids \<and> length ids = length msgs"
  using ids_distinct [OF assms(2), of "cn_last_msg_id cn"] send_all_ids [OF assms(1)] by simp

text \<open>
  A destination is two words separated by blanks, with any blanks around
  them: it is parsed into host and service.  With any other number of words
  parsing fails.  The tokenizer is any that behaves as documented.
\<close>

lemma destinations_parse:
  assumes "separator_tokenizer tokenize"
    and "h \<noteq> []" "CHR '' '' \<notin> set h" "s \<noteq> []" "CHR '' '' \<notin> set s"
    and "sep \<noteq> []" "set sep \<subseteq> {CHR '' ''}" "set pre \<subseteq> {CHR '' ''}" "set post \<subseteq> {CHR '' ''}"
  shows "parseDestinationString tokenize h0 s0 (pre @ h @ sep @ s @ post) = (True, h, s) \<and>
     (\<forall>w. length (tokenize '' '' w) \<noteq> 2 \<longrightarrow> \<not> fst (parseDestinationString tokenize h0 s0 w))"
  using separator_tokenizer.parse_padded [OF assms] by (simp add: parse_success_iff)

text \<open>
  Connecting to an unparsable destination reports the application
  disconnected and changes nothing: while connected, the report is wrong.
\<close>

lemma invalid_destination_misreports:
  assumes "cm_reachable host em (cn_machine cn)" and "cm_state (cn_machine cn) = StateConnected"
    and "length (tokenize '' '' (where_string loc)) \<noteq> 2"
  shows "\<exists>cn'. connectTo tokenize host ts loc cn = Inr cn' \<and>
     last_status (cn_machine cn) = Some CNST_CONNECTED \<and>
     cm_state (cn_machine cn') = StateConnected \<and> cm_pending (cn_machine cn') = cm_pending (cn_machine cn) \<and>
     last_status (cn_machine cn') = Some CNST_DISCONNECTED"
proof -
  from assms(3) have "\<not> fst (parseDestinationString tokenize [] [] (where_string loc))"
    by (simp add: parse_success_iff)
  moreover from cm_reachable_invariants [OF assms(1)] assms(2)
  have "last_status (cn_machine cn) = Some CNST_CONNECTED" by (simp add: status_inv_def)
  ultimately show ?thesis
    using assms(2)
    by (simp add: connectTo_def case_prod_beta Let_def emit_def csr_init_def last_status_def)
qed

text \<open>
  However often the application connects a slot for received messages,
  exactly the last one stays connected.
\<close>

lemma one_slot_for_messages:
  "cn_slots (((fst \<circ> connectRcvMessage) ^^ Suc n) client_node_ctor) = [n]"
proof -
  have "cn_slots (((fst \<circ> connectRcvMessage) ^^ Suc n) client_node_ctor) = [n] \<and>
    cn_next_slot (((fst \<circ> connectRcvMessage) ^^ Suc n) client_node_ctor) = Suc n \<and>
    cn_rcvMessageConnection (((fst \<circ> connectRcvMessage) ^^ Suc n) client_node_ctor) = Some n"
  proof (induction n)
    case 0
    show ?case by (simp add: connectRcvMessage_def client_node_ctor_def Let_def)
  next
    case (Suc n)
    then show ?case by (simp add: connectRcvMessage_def Let_def)
  qed
  then show ?thesis by blast
qed

end
