(* ===== verification/ClientLife.thy ===== *)
theory ClientLife
  imports ClientProps
begin

text \<open>
  Resources and stale handlers of the client: who owns the raw header buffers
  of \<open>statemachine.cpp\<close>, and what handlers of an earlier connection do to the
  present one.
\<close>

section \<open>Header buffers\<close>

definition header_reads :: "clientnode_machine \<Rightarrow> nat" where
  "header_reads m = length (filter (\<lambda>op. op = OpReadHeader) (cm_pending m))"

text \<open>\<open>k\<close> buffers belong to no pending header read.\<close>

definition bufs_surplus :: "nat \<Rightarrow> clientnode_machine \<Rightarrow> bool" where
  "bufs_surplus k m \<longleftrightarrow> cm_rcvbufs m = header_reads m + k"

text \<open>The read whose completion leaves its buffer behind.\<close>

fun aborts_header_read :: "async_op \<Rightarrow> completion \<Rightarrow> bool" where
  "aborts_header_read OpReadHeader (ReadDone ec n data) = (ec = OperationAborted)"
| "aborts_header_read _ _ = False"

lemma bufs_surplus_effects:
  "bufs_surplus k m \<Longrightarrow> bufs_surplus k (log_to t e m)"
  "bufs_surplus k m \<Longrightarrow> bufs_surplus k (emit s m)"
  "bufs_surplus k m \<Longrightarrow> bufs_surplus k (do_io a m)"
  "bufs_surplus k m \<Longrightarrow> op \<noteq> OpReadHeader \<Longrightarrow> bufs_surplus k (start_async op m)"
  "bufs_surplus k m \<Longrightarrow> bufs_surplus k (start_read_header m)"
  "bufs_surplus (Suc k) m \<Longrightarrow> bufs_surplus k (delete_rcvbuf m)"
  by (simp_all add: bufs_surplus_def header_reads_def cm_effect_defs start_read_header_def delete_rcvbuf_def)

lemma event_starts_no_header_read: "OpReadHeader \<notin> set (event_starts st e)"
  by (cases "(st, e)" rule: event_starts.cases) simp_all

lemma bufs_surplus_event:
  assumes "process_event host ts e m = Inr m'" and "bufs_surplus k m" and "event_wf e"
  shows "bufs_surplus k m'"
proof -
  have "filter (\<lambda>op. op = OpReadHeader) (event_starts (cm_state m) e) = []"
    using event_starts_no_header_read [of "cm_state m" e] by (auto simp: filter_empty_conv)
  with process_event_Inr [OF assms(3,1)] assms(2) show ?thesis
    by (simp add: bufs_surplus_def header_reads_def evolves_def)
qed

lemma bufs_surplus_log_all:
  "bufs_surplus k m \<Longrightarrow> bufs_surplus k (fold (\<lambda>ep. log_to ToInfo (LogEndpoint ep)) eps m)"
  by (rule fold_log_keeps) (rule bufs_surplus_effects(1))

lemma header_handler_bufs:
  assumes "receiveSegmentationHeaderHandler host em ts error n hdr m = Inr m'" and "bufs_surplus (Suc k) m"
    and "error = Success \<longrightarrow> n = segm_header_length"
  shows "bufs_surplus (if error = OperationAborted then Suc k else k) m'"
proof -
  let ?m = "log_to ToInfo (LogText ''Reveive (header) handler invoked'') m"
  have m: "bufs_surplus (Suc k) ?m" by (rule bufs_surplus_effects [OF assms(2)])
  have event: "bufs_surplus k (delete_rcvbuf m2)" if "process_event host ts (EvtDisconnected why) ?m = Inr m2" for why m2
    using bufs_surplus_event [OF that m] by (simp add: bufs_surplus_effects)
  have start: "bufs_surplus k (delete_rcvbuf (start_async (OpReadBody b) ?m))" for b
    using m by (simp add: bufs_surplus_effects)
  show ?thesis
    using assms(1,3) m
    by (auto simp: receiveSegmentationHeaderHandler_def Let_def rbind_eq_Inr_iff intro: event start
        split: if_splits sum.splits failure.splits)
qed

lemma run_handler_bufs:
  assumes run: "run_handler host em ts op c m = Inr m'" and "completes op c"
    and "bufs_surplus (if op = OpReadHeader then Suc k else k) m"
  shows "bufs_surplus (if aborts_header_read op c then Suc k else k) m'"
proof (cases "op = OpReadHeader")
  case True
  with assms(2) obtain ec n data where c: "c = ReadDone ec n data" by (cases c) simp_all
  with True header_handler_bufs [of host em ts ec n data m m' k] assms show ?thesis by simp
next
  case False
  have wf: "event_wf (EvtRcvdMessage (sd_of_block data))" for data
    by (simp add: sd_of_block_def)
  have quiet: "\<not> aborts_header_read op c" using False by (cases op; cases c) simp_all
  from assms(3) False have m: "bufs_surplus k m" by simp
  show ?thesis
    using run m quiet False
    by (cases op; cases c)
      (auto simp: resolveHandler_def connectHandler_def writeHandler_def receiveSegmentationBodyHandler_def
        Let_def rbind_eq_Inr_iff
        intro!: bufs_surplus_effects bufs_surplus_log_all elim!: bufs_surplus_event intro: wf
        split: if_splits list.splits)
qed

lemma header_reads_remove:
  assumes "i < length (cm_pending m)"
  shows "header_reads m = header_reads (m\<lparr>cm_pending := remove_nth i (cm_pending m)\<rparr>) +
     (if cm_pending m ! i = OpReadHeader then 1 else 0)"
proof -
  let ?xs = "cm_pending m"
  have "?xs = take i ?xs @ ?xs ! i # drop (Suc i) ?xs" by (rule id_take_nth_drop [OF assms])
  then have "length (filter (\<lambda>op. op = OpReadHeader) ?xs) =
      length (filter (\<lambda>op. op = OpReadHeader) (take i ?xs @ ?xs ! i # drop (Suc i) ?xs))"
    by (rule arg_cong)
  then show ?thesis by (simp add: header_reads_def remove_nth_def)
qed

lemma complete_op_bufs:
  assumes "bufs_surplus k m" and "i < length (cm_pending m)" and "completes (cm_pending m ! i) c"
    and "complete_op host em ts i c m = Inr m'"
  shows "bufs_surplus (if aborts_header_read (cm_pending m ! i) c then Suc k else k) m'"
proof -
  from assms(4) obtain m1 where run: "run_handler host em ts (cm_pending m ! i) c
        (m\<lparr>cm_pending := remove_nth i (cm_pending m)\<rparr>) = Inr m1" and m': "m' = release_ref m1"
    by (auto simp: complete_op_def rbind_eq_Inr_iff)
  have "bufs_surplus (if cm_pending m ! i = OpReadHeader then Suc k else k)
      (m\<lparr>cm_pending := remove_nth i (cm_pending m)\<rparr>)"
    using assms(1) header_reads_remove [OF assms(2)] by (simp add: bufs_surplus_def)
  from run_handler_bufs [OF run assms(3) this] show ?thesis
    by (simp add: m' bufs_surplus_def header_reads_def)
qed

lemma cm_reachable_bufs: "cm_reachable host em m \<Longrightarrow> \<exists>k. bufs_surplus k m"
proof (induction rule: cm_reachable.induct)
  case start
  have "bufs_surplus 0 cm_initiate"
    by (simp add: bufs_surplus_def header_reads_def cm_initiate_def cm_ctor_def enter_defs cm_effect_defs)
  then show ?case ..
next
  case (step m m')
  from step.IH obtain k where k: "bufs_surplus k m" ..
  from step.hyps(2) show ?case
  proof (cases rule: cm_step.cases)
    case (user e ts)
    with k show ?thesis using bufs_surplus_event user_event_wf by blast
  next
    case (completion i c ts)
    with k show ?thesis using complete_op_bufs by blast
  qed
qed

text \<open>
  C28. Every pending read of a header has a buffer of its own, so no buffer is
  deleted that does not exist; and buffers leak in one way only: the completion
  of an aborted header read leaves its buffer behind, any other completion
  leaves none.
\<close>

theorem header_buffers_are_owned:
  assumes "cm_reachable host em m" and "i < length (cm_pending m)" and "completes (cm_pending m ! i) c"
    and "complete_op host em ts i c m = Inr m'"
  shows "header_reads m \<le> cm_rcvbufs m \<and> header_reads m' \<le> cm_rcvbufs m' \<and>
     cm_rcvbufs m' - header_reads m' = cm_rcvbufs m - header_reads m +
       (if aborts_header_read (cm_pending m ! i) c then 1 else 0)"
proof -
  from cm_reachable_bufs [OF assms(1)] obtain k where k: "bufs_surplus k m" ..
  from complete_op_bufs [OF this assms(2-4)] k show ?thesis
    by (auto simp: bufs_surplus_def split: if_splits)
qed

lemma header_buffers_are_owned_witness:
  "\<exists>m m'. complete_op LittleEndian demo_em ThreadStarted 0 (ReadDone OperationAborted 0 [0, 0, 0, 0]) m = Inr m' \<and>
     cm_pending m = [OpReadHeader] \<and>
     cm_rcvbufs m' - header_reads m' = cm_rcvbufs m - header_reads m + 1"
proof -
  from connected_reachable [of LittleEndian demo_em] obtain m where
      m: "cm_reachable LittleEndian demo_em m" "cm_pending m = [OpReadHeader]" by blast
  have "\<exists>m'. complete_op LittleEndian demo_em ThreadStarted 0 (ReadDone OperationAborted 0 [0, 0, 0, 0]) m = Inr m'"
    by (simp add: complete_op_def m(2) receiveSegmentationHeaderHandler_def Let_def)
  then obtain m' where
      run: "complete_op LittleEndian demo_em ThreadStarted 0 (ReadDone OperationAborted 0 [0, 0, 0, 0]) m = Inr m'" ..
  have "0 < length (cm_pending m)"
      "completes (cm_pending m ! 0) (ReadDone OperationAborted 0 [0, 0, 0, 0])"
      "aborts_header_read (cm_pending m ! 0) (ReadDone OperationAborted 0 [0, 0, 0, 0])"
    by (simp_all add: m(2) segm_header_length_def)
  with header_buffers_are_owned [OF m(1) _ _ run] run m(2) show ?thesis by auto
qed

section \<open>Stale handlers\<close>

abbreviation cm_steps :: "endianness \<Rightarrow> (error_code \<Rightarrow> string) \<Rightarrow> clientnode_machine \<Rightarrow> clientnode_machine \<Rightarrow> bool" where
  "cm_steps host em \<equiv> (cm_step host em)\<^sup>*\<^sup>*"

definition connected_rprt :: cn_signal where
  "connected_rprt = ConnectStatReport \<lparr>newstate = CNST_CONNECTED,
     statechange_reason = STCHR_USER_REQUESTED, csr_msg = ''Connection succeeded.''\<rparr>"

text \<open>A request of the application, as a step.\<close>

lemma user_step:
  assumes "user_event e" and "event_ok (cm_state m) e"
  shows "\<exists>m'. cm_step host em m m' \<and> cm_state m' = fst (cn_spec ThreadStarted (cm_state m) e) \<and>
     cm_signals m' = cm_signals m @ snd (cn_spec ThreadStarted (cm_state m) e) \<and>
     cm_pending m' = cm_pending m @ event_starts (cm_state m) e"
  using process_event_effect [OF assms(2), of host ThreadStarted] cm_step.user [OF assms(1)]
  by (fastforce simp: evolves_def)

lemma remove_nth_middle: "length xs = i \<Longrightarrow> remove_nth i (xs @ x # ys) = xs @ ys"
  by (simp add: remove_nth_def)

text \<open>The completions of an attempt to connect, whatever else is pending.\<close>

lemma fold_log_simps:
  "cm_state (fold (\<lambda>ep. log_to ToInfo (LogEndpoint ep)) eps m) = cm_state m"
  "cm_signals (fold (\<lambda>ep. log_to ToInfo (LogEndpoint ep)) eps m) = cm_signals m"
  "cm_pending (fold (\<lambda>ep. log_to ToInfo (LogEndpoint ep)) eps m) = cm_pending m"
  by (induction eps arbitrary: m) (simp_all add: log_to_def)

lemma resolve_completes:
  assumes "cm_pending m = xs @ OpResolve h s # ys" and "eps \<noteq> []"
  shows "\<exists>m'. complete_op host em ts (length xs) (ResolveDone Success eps) m = Inr m' \<and>
     cm_state m' = cm_state m \<and> cm_signals m' = cm_signals m \<and>
     cm_pending m' = xs @ ys @ [OpConnect eps]"
  using assms
  by (simp add: complete_op_def resolveHandler_def Let_def remove_nth_middle start_async_def do_io_def
      fold_log_simps) (simp add: log_to_def)

lemma connect_completes:
  assumes "cm_state m = StateNegotiating" and "cm_pending m = xs @ OpConnect eps # ys" and "eps \<noteq> []"
  shows "\<exists>m'. complete_op host em ts (length xs) (ConnectDone Success) m = Inr m' \<and>
     cm_state m' = StateConnected \<and> cm_pending m' = xs @ ys @ [OpReadHeader] \<and>
     cm_signals m' = cm_signals m @ [connected_rprt]"
proof -
  from assms(3) obtain ep rest where eps: "eps = ep # rest" by (cases eps) auto
  let ?m = "start_read_header (log_to ToInfo (LogText (''connectHandler invoked. (host '' @ ep_address ep @ '')''))
      (m\<lparr>cm_pending := xs @ ys\<rparr>))"
  have st: "cm_state ?m = StateNegotiating" "cm_pending ?m = xs @ ys @ [OpReadHeader]"
      "cm_signals ?m = cm_signals m"
    using assms(1) by (simp_all add: start_read_header_def cm_effect_defs)
  from process_event_effect [of ?m "EvtConnectReport True ''Connection succeeded.''" host ts] st
  obtain m1 where "process_event host ts (EvtConnectReport True ''Connection succeeded.'') ?m = Inr m1"
      "evolves ?m m1 StateConnected [connected_rprt] []"
    by (auto simp: connected_rprt_def)
  with assms(2) st eps show ?thesis
    by (auto simp: complete_op_def connectHandler_def remove_nth_middle Let_def evolves_def)
qed

lemma header_error_completes:
  assumes "cm_state m = StateConnected" and "cm_pending m = xs @ OpReadHeader # ys"
    and "ec \<noteq> Success" and "ec \<noteq> OperationAborted"
  shows "\<exists>m'. complete_op host em ts (length xs) (ReadDone ec n hdr) m = Inr m' \<and>
     cm_state m' = StateWaiting \<and> cm_pending m' = xs @ ys \<and>
     cm_signals m' = cm_signals m @ [disconnected_rprt STCHR_SOCKET_CLOSED (em ec)]"
proof -
  let ?m = "log_to ToInfo (LogText ''Reveive (header) handler invoked'') (m\<lparr>cm_pending := xs @ ys\<rparr>)"
  have st: "cm_state ?m = StateConnected" "cm_pending ?m = xs @ ys" "cm_signals ?m = cm_signals m"
    using assms(1) by (simp_all add: log_to_def)
  from process_event_effect [of ?m "EvtDisconnected (em ec)" host ts] st
  obtain m1 where "process_event host ts (EvtDisconnected (em ec)) ?m = Inr m1"
      "evolves ?m m1 StateWaiting [disconnected_rprt STCHR_SOCKET_CLOSED (em ec)] []"
    by auto
  with assms(2-4) st show ?thesis
    by (auto simp: complete_op_def receiveSegmentationHeaderHandler_def remove_nth_middle Let_def
        evolves_def delete_rcvbuf_def)
qed

text \<open>A connection made from \<open>StateWaiting\<close> leaves what was pending before in place.\<close>

lemma connects:
  assumes "cm_state m = StateWaiting"
  shows "\<exists>m'. cm_steps host em m m' \<and> cm_state m' = StateConnected \<and>
     cm_pending m' = cm_pending m @ [OpReadHeader] \<and> cm_signals m' = cm_signals m @ [connected_rprt]"
proof -
  from user_step [of "EvtConnectRequest ''host'' ''port''" m host em] assms obtain m1 where
      m1: "cm_step host em m m1" "cm_state m1 = StateNegotiating" "cm_signals m1 = cm_signals m"
        "cm_pending m1 = cm_pending m @ [OpResolve ''host'' ''port'']"
    by auto
  from resolve_completes [of m1 "cm_pending m" "''host''" "''port''" "[]" "[demo_endpoint 1]" host em ThreadStarted]
    m1 obtain m2 where
      m2: "complete_op host em ThreadStarted (length (cm_pending m)) (ResolveDone Success [demo_endpoint 1]) m1 = Inr m2"
        "cm_state m2 = StateNegotiating" "cm_signals m2 = cm_signals m"
        "cm_pending m2 = cm_pending m @ [OpConnect [demo_endpoint 1]]"
    by auto
  from connect_completes [of m2 "cm_pending m" "[demo_endpoint 1]" "[]" host em ThreadStarted] m2 obtain m3 where
      m3: "complete_op host em ThreadStarted (length (cm_pending m)) (ConnectDone Success) m2 = Inr m3"
        "cm_state m3 = StateConnected" "cm_signals m3 = cm_signals m @ [connected_rprt]"
        "cm_pending m3 = cm_pending m @ [OpReadHeader]"
    by auto
  have "cm_step host em m1 m2" by (rule cm_step.completion [OF _ _ m2(1)]) (simp_all add: m1(4))
  moreover have "cm_step host em m2 m3" by (rule cm_step.completion [OF _ _ m3(1)]) (simp_all add: m2(4))
  ultimately have "cm_steps host em m m3"
    using m1(1) by (meson converse_rtranclp_into_rtranclp rtranclp.rtrancl_refl)
  with m3 show ?thesis by blast
qed

text \<open>
  C33. A failed read of an old connection ends the new one: if the application
  disconnects and connects again while the header read of the first connection
  is still to be handled, a network error of that read, other than its being
  cancelled, disconnects the machine from the second connection, whose own read
  is still pending.
\<close>

theorem stale_error_ends_new_connection:
  assumes "cm_state m = StateConnected" and "cm_pending m = xs @ OpReadHeader # ys"
    and "ec \<noteq> Success" and "ec \<noteq> OperationAborted"
  shows "\<exists>m1 m2. cm_steps host em m m1 \<and> cm_state m1 = StateConnected \<and>
     cm_pending m1 = cm_pending m @ [OpReadHeader] \<and>
     cm_signals m1 = cm_signals m @ [disconnected_rprt STCHR_USER_REQUESTED '''', connected_rprt] \<and>
     complete_op host em ts (length xs) (ReadDone ec n hdr) m1 = Inr m2 \<and>
     cm_state m2 = StateWaiting \<and> cm_pending m2 = xs @ ys @ [OpReadHeader] \<and>
     cm_signals m2 = cm_signals m1 @ [disconnected_rprt STCHR_SOCKET_CLOSED (em ec)]"
proof -
  from user_step [of EvtDisconnectRequest m host em] assms(1) obtain m0 where
      m0: "cm_step host em m m0" "cm_state m0 = StateWaiting" "cm_pending m0 = cm_pending m"
        "cm_signals m0 = cm_signals m @ [disconnected_rprt STCHR_USER_REQUESTED '''']"
    by auto
  from connects [OF m0(2), of host em] obtain m1 where
      m1: "cm_steps host em m0 m1" "cm_state m1 = StateConnected"
        "cm_pending m1 = xs @ OpReadHeader # ys @ [OpReadHeader]"
        "cm_signals m1 = cm_signals m0 @ [connected_rprt]"
    using m0(3) assms(2) by auto
  have "cm_steps host em m m1" using m0(1) m1(1) by (rule converse_rtranclp_into_rtranclp)
  with header_error_completes [OF m1(2,3) assms(3,4), of host em ts n hdr] m1 m0 assms(2)
  show ?thesis by auto
qed

lemma stale_error_ends_new_connection_witness:
  "\<exists>m1 m2. cm_steps LittleEndian demo_em (demo_machine StateConnected [OpReadHeader]) m1 \<and>
     cm_state m1 = StateConnected \<and>
     complete_op LittleEndian demo_em ThreadStarted 0 (ReadDone (OtherError 2) 0 [0, 0, 0, 0]) m1 = Inr m2 \<and>
     cm_state m2 = StateWaiting \<and> cm_pending m2 = [OpReadHeader]"
  using stale_error_ends_new_connection [of "demo_machine StateConnected [OpReadHeader]" "[]" "[]" "OtherError 2"
      LittleEndian demo_em ThreadStarted 0 "[0, 0, 0, 0]"]
  by fastforce

text \<open>
  C32. Cancelling a connection attempt does not cancel the resolution of its
  host: after a disconnect and a request to connect elsewhere, the addresses
  of the cancelled host, when they arrive, are connected to, and the machine
  reports success and is connected to the host the user gave up, while
  the one asked for is still being resolved.
\<close>

theorem cancelled_attempt_connects:
  assumes "cm_state m = StateWaiting" and "eps \<noteq> []"
  shows "\<exists>m1 m2 m3. cm_steps host em m m1 \<and> cm_state m1 = StateNegotiating \<and>
     cm_pending m1 = cm_pending m @ [OpResolve old_host s, OpResolve new_host s'] \<and>
     cm_signals m1 = cm_signals m @ [disconnected_rprt STCHR_USER_REQUESTED ''''] \<and>
     complete_op host em ts (length (cm_pending m)) (ResolveDone Success eps) m1 = Inr m2 \<and>
     cm_pending m2 = cm_pending m @ [OpResolve new_host s', OpConnect eps] \<and>
     complete_op host em ts (Suc (length (cm_pending m))) (ConnectDone Success) m2 = Inr m3 \<and>
     cm_state m3 = StateConnected \<and> cm_pending m3 = cm_pending m @ [OpResolve new_host s', OpReadHeader] \<and>
     cm_signals m3 = cm_signals m1 @ [connected_rprt]"
proof -
  from user_step [of "EvtConnectRequest old_host s" m host em] assms(1) obtain n1 where
      n1: "cm_step host em m n1" "cm_state n1 = StateNegotiating" "cm_signals n1 = cm_signals m"
        "cm_pending n1 = cm_pending m @ [OpResolve old_host s]"
    by auto
  from user_step [of EvtDisconnectRequest n1 host em] n1 obtain n2 where
      n2: "cm_step host em n1 n2" "cm_state n2 = StateWaiting" "cm_pending n2 = cm_pending n1"
        "cm_signals n2 = cm_signals m @ [disconnected_rprt STCHR_USER_REQUESTED '''']"
    by auto
  from user_step [of "EvtConnectRequest new_host s'" n2 host em] n1 n2 obtain m1 where
      m1: "cm_step host em n2 m1" "cm_state m1 = StateNegotiating"
        "cm_signals m1 = cm_signals m @ [disconnected_rprt STCHR_USER_REQUESTED '''']"
        "cm_pending m1 = cm_pending m @ [OpResolve old_host s, OpResolve new_host s']"
    by auto
  have steps: "cm_steps host em m m1"
    using n1(1) n2(1) m1(1) by (meson converse_rtranclp_into_rtranclp rtranclp.rtrancl_refl)
  from resolve_completes [of m1 "cm_pending m" old_host s "[OpResolve new_host s']" eps host em ts] m1 assms(2)
  obtain m2 where
      m2: "complete_op host em ts (length (cm_pending m)) (ResolveDone Success eps) m1 = Inr m2"
        "cm_state m2 = StateNegotiating" "cm_signals m2 = cm_signals m1"
        "cm_pending m2 = cm_pending m @ [OpResolve new_host s', OpConnect eps]"
    by auto
  from connect_completes [of m2 "cm_pending m @ [OpResolve new_host s']" eps "[]" host em ts] m2 assms(2)
  show ?thesis using steps m1 m2 by auto
qed

lemma cancelled_attempt_connects_witness:
  "\<exists>m1 m2 m3. cm_steps BigEndian demo_em cm_initiate m1 \<and>
     complete_op BigEndian demo_em ThreadStarted 0 (ResolveDone Success [demo_endpoint 7]) m1 = Inr m2 \<and>
     complete_op BigEndian demo_em ThreadStarted 1 (ConnectDone Success) m2 = Inr m3 \<and>
     cm_state m3 = StateConnected \<and> cm_pending m3 = [OpResolve ''new'' ''2'', OpReadHeader]"
  using cancelled_attempt_connects [of cm_initiate "[demo_endpoint 7]" BigEndian demo_em "''old''" "''1''"
      "''new''" "''2''" ThreadStarted]
  by (fastforce simp: initiate_simps)

end
