(* ===== verification/ClientDrain.thy ===== *)
theory ClientDrain
  imports ClientLife
begin

text \<open>
  The pending operations of a reachable client machine are well formed, which
  bounds what a completion can do to it; and once operations only fail, as after
  the socket was closed, all handlers return, so the destructor's condition is
  notified.
\<close>

section \<open>Well-formed operations\<close>

text \<open>
  A connection attempt has an address left to try; a body that is read fits
  into a packet; what is written is the packet of a user message.
\<close>

primrec async_op_wf :: "async_op \<Rightarrow> bool" where
  "async_op_wf (OpResolve h s) = True"
| "async_op_wf (OpConnect eps) = (eps \<noteq> [])"
| "async_op_wf OpReadHeader = True"
| "async_op_wf (OpReadBody n) = (n \<le> 0x8FFF - 4)"
| "async_op_wf (OpWrite d) = (\<exists>msg. num_size msg + 4 \<le> vector_max_size \<and> d = segm_wire num_wire msg)"

definition ops_wf :: "clientnode_machine \<Rightarrow> bool" where
  "ops_wf m \<longleftrightarrow> list_all async_op_wf (cm_pending m)"

text \<open>How often an operation can fail before nothing is left of it.\<close>

definition op_weight :: "async_op \<Rightarrow> nat" where
  "op_weight op = (case op of OpConnect eps \<Rightarrow> length eps | _ \<Rightarrow> 1)"

definition pending_weight :: "clientnode_machine \<Rightarrow> nat" where
  "pending_weight m = sum_list (map op_weight (cm_pending m))"

fun op_fails :: "completion \<Rightarrow> bool" where
  "op_fails (ResolveDone ec eps) = (ec \<noteq> Success \<and> eps = [])"
| "op_fails (ConnectDone ec) = (ec \<noteq> Success)"
| "op_fails (ReadDone ec n d) = (ec \<noteq> Success)"
| "op_fails (WriteDone ec n) = (ec \<noteq> Success)"

text \<open>The one completion a well-formed machine cannot bear.\<close>

fun empty_body :: "cn_state \<Rightarrow> async_op \<Rightarrow> completion \<Rightarrow> bool" where
  "empty_body StateConnected (OpReadBody n) (ReadDone ec k d) = (ec = Success \<and> d = [])"
| "empty_body _ _ _ = False"

text \<open>
  \<open>returns m m' op c\<close>: the handler of \<open>op\<close> leaves well-formed new operations,
  and of a failed one less than there was.
\<close>

definition returns :: "clientnode_machine \<Rightarrow> clientnode_machine \<Rightarrow> async_op \<Rightarrow> completion \<Rightarrow> bool" where
  "returns m m' op c \<longleftrightarrow>
     (\<exists>new. cm_pending m' = cm_pending m @ new \<and> list_all async_op_wf new \<and>
        (op_fails c \<longrightarrow> sum_list (map op_weight new) < op_weight op))"

lemma op_weight_simps [simp]:
  "op_weight (OpConnect eps) = length eps" "op_weight (OpResolve h s) = 1" "op_weight OpReadHeader = 1"
  "op_weight (OpReadBody n) = 1" "op_weight (OpWrite d) = 1"
  by (simp_all add: op_weight_def)

lemma op_weight_pos: "async_op_wf op \<Longrightarrow> 0 < op_weight op"
  by (cases op) simp_all

lemma event_starts_network: "\<not> user_event e \<Longrightarrow> event_starts st e = []"
  by (cases "(st, e)" rule: event_starts.cases) simp_all

lemma network_event:
  assumes "\<not> user_event e" and "event_ok (cm_state m) e"
  shows "\<exists>m'. process_event host ts e m = Inr m' \<and> cm_pending m' = cm_pending m"
  using process_event_effect [OF assms(2), of host ts] event_starts_network [OF assms(1)]
  by (auto simp: evolves_def)

lemma report_event:
  "\<exists>m'. process_event host ts (EvtConnectReport ok msg) m = Inr m' \<and> cm_pending m' = cm_pending m"
  "\<exists>m'. process_event host ts (EvtDisconnected msg) m = Inr m' \<and> cm_pending m' = cm_pending m"
  by (rule network_event; cases "cm_state m"; simp)+

lemma returns_same: "cm_pending m' = cm_pending m \<Longrightarrow> async_op_wf op \<Longrightarrow> returns m m' op c"
  by (auto simp: returns_def op_weight_pos intro!: exI [of _ "[]"])

lemma pending_effects [simp]:
  "cm_pending (log_to t e m) = cm_pending m" "cm_pending (emit s m) = cm_pending m"
  "cm_pending (do_io a m) = cm_pending m" "cm_pending (start_async op m) = cm_pending m @ [op]"
  "cm_pending (delete_rcvbuf m) = cm_pending m" "cm_pending (start_read_header m) = cm_pending m @ [OpReadHeader]"
  by (simp_all add: cm_effect_defs delete_rcvbuf_def start_read_header_def)

lemma state_effects [simp]:
  "cm_state (log_to t e m) = cm_state m" "cm_state (emit s m) = cm_state m"
  "cm_state (do_io a m) = cm_state m" "cm_state (start_async op m) = cm_state m"
  "cm_state (delete_rcvbuf m) = cm_state m" "cm_state (start_read_header m) = cm_state m"
  by (simp_all add: cm_effect_defs delete_rcvbuf_def start_read_header_def)

lemma pending_log_all:
  "cm_pending (fold (\<lambda>ep. log_to ToInfo (LogEndpoint ep)) eps m) = cm_pending m"
  by (rule fold_log_keeps [where P = "\<lambda>n. cm_pending n = cm_pending m"]) simp_all

lemma resolve_returns:
  "\<exists>m'. resolveHandler host em ts ec eps m = Inr m' \<and> returns m m' (OpResolve h s) (ResolveDone ec eps)"
proof (cases "eps = []")
  case True
  then show ?thesis
    using report_event(1) [of host ts False _ "log_to ToInfo (LogText ''resolveHandler invoked.'') m"]
    by (auto simp: resolveHandler_def Let_def intro!: returns_same)
      (metis returns_same async_op_wf.simps(1))+
next
  case False
  then show ?thesis
    by (auto simp: resolveHandler_def Let_def returns_def pending_log_all)
qed

lemma connect_returns:
  assumes "eps \<noteq> []"
  shows "\<exists>m'. connectHandler host em ts ec eps m = Inr m' \<and> returns m m' (OpConnect eps) (ConnectDone ec)"
proof -
  from assms obtain ep rest where eps: "eps = ep # rest" by (cases eps) auto
  let ?m = "log_to ToInfo (LogText (''connectHandler invoked. (host '' @ ep_address ep @ '')'')) m"
  show ?thesis
    using report_event(1) [of host ts True "''Connection succeeded.''" "start_read_header ?m"]
      report_event(1) [of host ts False "em ec" ?m]
    by (auto simp: eps connectHandler_def Let_def returns_def)
qed

lemma write_returns:
  assumes "async_op_wf (OpWrite d)"
  shows "\<exists>m'. writeHandler host em ts ec n d m = Inr m' \<and> returns m m' (OpWrite d) (WriteDone ec n)"
proof -
  let ?m = "log_to ToInfo (LogText ''Sending message finished'') m"
  let ?r = "sr_init\<lparr>send_state := False, sr_reason := SR_CONNECTION_ERROR, reason_str := em ec\<rparr>"
  from report_event(2) [of host ts "em ec" "emit (SendReport ?r) ?m"] obtain m' where
      "process_event host ts (EvtDisconnected (em ec)) (emit (SendReport ?r) ?m) = Inr m'" "cm_pending m' = cm_pending m"
    by auto
  then show ?thesis using assms by (auto simp: writeHandler_def Let_def simp del: async_op_wf.simps intro: returns_same)
qed

lemma header_returns:
  assumes "length d = 4"
  shows "\<exists>m'. receiveSegmentationHeaderHandler host em ts ec n d m = Inr m' \<and>
     returns m m' OpReadHeader (ReadDone ec n d)"
proof -
  let ?m = "log_to ToInfo (LogText ''Reveive (header) handler invoked'') m"
  have event: "\<exists>m'. rbind (process_event host ts (EvtDisconnected why) ?m) (\<lambda>m. Inr (delete_rcvbuf m)) = Inr m' \<and>
      returns m m' OpReadHeader (ReadDone ec n d)" for why
    using report_event(2) [of host ts why ?m] by (auto intro!: returns_same)
  show ?thesis
  proof (cases "ec \<noteq> Success \<or> n \<noteq> segm_header_length")
    case True
    with event [of "em ec"] show ?thesis
      by (auto simp: receiveSegmentationHeaderHandler_def Let_def intro!: returns_same)
  next
    case False
    then show ?thesis
      using event
      by (auto simp: receiveSegmentationHeaderHandler_def Let_def body_buffer_cases [OF assms] returns_def
          simp del: word_of_le.simps)
  qed
qed

lemma body_returns:
  assumes "length d = k" and "k \<le> 0x8FFF - 4" and "\<not> empty_body (cm_state m) (OpReadBody k) (ReadDone ec n d)"
  shows "\<exists>m'. receiveSegmentationBodyHandler host em ts ec n d m = Inr m' \<and>
     returns m m' (OpReadBody k) (ReadDone ec n d)"
proof (cases "ec = Success")
  case False
  with report_event(2) [of host ts "em ec" m] assms(2) show ?thesis
    by (auto simp: receiveSegmentationBodyHandler_def intro!: returns_same)
next
  case True
  have "event_ok (cm_state m) (EvtRcvdMessage (sd_of_block d))"
    using assms(3) True sd_of_block_simps [of d] by (cases "cm_state m") auto
  from network_event [OF _ this, of host ts] True show ?thesis
    by (auto simp: receiveSegmentationBodyHandler_def returns_def)
qed

lemma run_handler_returns:
  assumes "async_op_wf op" and "completes op c" and "\<not> empty_body (cm_state m) op c"
  shows "\<exists>m'. run_handler host em ts op c m = Inr m' \<and> returns m m' op c"
  using assms
  by (cases op; cases c)
    (auto simp: segm_header_length_def intro: resolve_returns connect_returns header_returns body_returns
      write_returns [simplified])

section \<open>Completions\<close>

lemma sum_list_remove_nth:
  "i < length xs \<Longrightarrow> sum_list (map f xs) = sum_list (map f (remove_nth i xs)) + (f (xs ! i) :: nat)"
  by (subst id_take_nth_drop [of i xs]) (simp_all add: remove_nth_def)

lemma set_remove_nth: "set (remove_nth i xs) \<subseteq> set xs"
  using set_take_subset [of i xs] set_drop_subset [of "Suc i" xs] by (auto simp: remove_nth_def)

text \<open>A completion of a well-formed machine returns, unless an empty body arrives.\<close>

lemma complete_op_returns:
  assumes "ops_wf m" and "i < length (cm_pending m)" and "completes (cm_pending m ! i) c"
    and "\<not> empty_body (cm_state m) (cm_pending m ! i) c"
  shows "\<exists>m'. complete_op host em ts i c m = Inr m' \<and> ops_wf m' \<and>
     (op_fails c \<longrightarrow> pending_weight m' < pending_weight m)"
proof -
  let ?op = "cm_pending m ! i" and ?m = "m\<lparr>cm_pending := remove_nth i (cm_pending m)\<rparr>"
  from assms(1,2) have "async_op_wf ?op" by (simp add: ops_wf_def list_all_length)
  from run_handler_returns [OF this assms(3), of ?m host em ts] assms(4) obtain m1 where
      m1: "run_handler host em ts ?op c ?m = Inr m1" "returns ?m m1 ?op c" by auto
  from m1(2) obtain new where new: "cm_pending m1 = remove_nth i (cm_pending m) @ new"
      "list_all async_op_wf new" "op_fails c \<longrightarrow> sum_list (map op_weight new) < op_weight ?op"
    by (auto simp: returns_def)
  have "ops_wf (release_ref m1)"
    using assms(1) new(1,2) set_remove_nth [of i "cm_pending m"] by (auto simp: ops_wf_def list_all_iff)
  moreover have "op_fails c \<longrightarrow> pending_weight (release_ref m1) < pending_weight m"
    using new(3) sum_list_remove_nth [OF assms(2), of op_weight] by (auto simp: pending_weight_def new(1))
  ultimately show ?thesis using m1(1) by (simp add: complete_op_def)
qed

lemma empty_body_fails:
  assumes "empty_body (cm_state m) (cm_pending m ! i) c"
  shows "complete_op host em ts i c m = Inl (Undefined ReadOutOfBounds)"
proof -
  from assms obtain n k where
      e: "cm_state m = StateConnected" "cm_pending m ! i = OpReadBody n" "c = ReadDone Success k []"
    by (cases "(cm_state m, cm_pending m ! i, c)" rule: empty_body.cases) auto
  have "process_event host ts (EvtRcvdMessage (sd_of_block [])) (m\<lparr>cm_pending := remove_nth i (cm_pending m)\<rparr>) =
      Inl (Undefined ReadOutOfBounds)"
    using process_event_fails [of "EvtRcvdMessage (sd_of_block [])" "m\<lparr>cm_pending := remove_nth i (cm_pending m)\<rparr>" host ts]
      e(1) by (simp add: sd_of_block_def sd_size_def)
  then show ?thesis by (simp add: complete_op_def e receiveSegmentationBodyHandler_def)
qed

lemma ops_wf_user:
  assumes "ops_wf m" and "user_event e" and "process_event host ts e m = Inr m'"
  shows "ops_wf m'"
proof -
  from process_event_Inr [OF user_event_wf [OF assms(2)] assms(3)]
  have ok: "event_ok (cm_state m) e" and "cm_pending m' = cm_pending m @ event_starts (cm_state m) e"
    by (simp_all add: evolves_def)
  moreover have "list_all async_op_wf (event_starts (cm_state m) e)"
    using ok by (cases "(cm_state m, e)" rule: event_starts.cases) auto
  ultimately show ?thesis using assms(1) by (simp add: ops_wf_def)
qed

lemma ops_wf_reachable: "cm_reachable host em m \<Longrightarrow> ops_wf m"
proof (induction rule: cm_reachable.induct)
  case start
  show ?case by (simp add: ops_wf_def initiate_simps)
next
  case (step m m')
  from step.hyps(2) show ?case
  proof (cases rule: cm_step.cases)
    case (user e ts)
    with step.IH show ?thesis by (blast intro: ops_wf_user)
  next
    case (completion i c ts)
    then have "\<not> empty_body (cm_state m) (cm_pending m ! i) c"
      using empty_body_fails [of m i c host em ts] by auto
    from complete_op_returns [OF step.IH completion(1,2) this, of host em ts] completion(3) show ?thesis by auto
  qed
qed

text \<open>
  C12. In every reachable machine a pending connection attempt has an address to
  try, a body that is read fits into a packet of the maximal size, and what is
  written is the whole packet of one user message.
\<close>

theorem pending_operations_typed:
  assumes "cm_reachable host em m" and "op \<in> set (cm_pending m)"
  shows "case op of
       OpConnect eps \<Rightarrow> eps \<noteq> []
     | OpReadBody n \<Rightarrow> n + segm_header_length \<le> unat MAX_PACKETSIZE
     | OpWrite d \<Rightarrow> \<exists>msg. d = segm_wire num_wire msg \<and> length d = num_size msg + segm_header_length
     | _ \<Rightarrow> True"
proof -
  from ops_wf_reachable [OF assms(1)] assms(2) have "async_op_wf op" by (auto simp: ops_wf_def list_all_iff)
  then show ?thesis
    by (cases op) (auto simp: segm_header_length_def MAX_PACKETSIZE_def length_segm_wire length_num_wire)
qed

lemma pending_operations_typed_witness:
  "\<exists>m d. cm_reachable LittleEndian demo_em m \<and> OpWrite d \<in> set (cm_pending m) \<and>
     (\<exists>msg. d = segm_wire num_wire msg)"
proof -
  from connected_reachable [of LittleEndian demo_em] obtain m where
      m: "cm_reachable LittleEndian demo_em m" "cm_state m = StateConnected" by blast
  from user_reaches [OF m(1), where e = "EvtSendMsg demo_message" and ts = ThreadStarted] obtain m' where
      m': "cm_reachable LittleEndian demo_em m'" "OpWrite (segm_wire num_wire demo_message) \<in> set (cm_pending m')"
    using m(2) demo_message_size by (auto simp: evolves_def vector_max_size_def)
  from pending_operations_typed [OF m'] m' show ?thesis by auto
qed



section \<open>All handlers return\<close>

text \<open>One more operation fails; which, and how, is up to the environment.\<close>

inductive cm_fail_step ::
  "endianness \<Rightarrow> (error_code \<Rightarrow> string) \<Rightarrow> clientnode_machine \<Rightarrow> clientnode_machine \<Rightarrow> bool"
  for host em where
  fail: "i < length (cm_pending m) \<Longrightarrow> completes (cm_pending m ! i) c \<Longrightarrow> op_fails c \<Longrightarrow>
    complete_op host em ts i c m = Inr m' \<Longrightarrow> cm_fail_step host em m m'"

lemma failing_completion: "\<exists>c. completes op c \<and> op_fails c"
proof (cases op)
  case (OpResolve h s)
  then show ?thesis by (auto intro!: exI [of _ "ResolveDone OperationAborted []"])
next
  case (OpConnect eps)
  then show ?thesis by (auto intro!: exI [of _ "ConnectDone OperationAborted"])
next
  case OpReadHeader
  then show ?thesis by (auto intro!: exI [of _ "ReadDone OperationAborted 0 (replicate segm_header_length 0)"])
next
  case (OpReadBody k)
  then show ?thesis by (auto intro!: exI [of _ "ReadDone OperationAborted 0 (replicate k 0)"])
next
  case (OpWrite d)
  then show ?thesis by (auto intro!: exI [of _ "WriteDone OperationAborted 0"])
qed

lemma failure_not_empty_body: "op_fails c \<Longrightarrow> \<not> empty_body st op c"
  by (cases "(st, op, c)" rule: empty_body.cases) auto

lemma fail_step:
  assumes "cm_fail_step host em m m'" and "cm_reachable host em m"
  shows "cm_reachable host em m'" and "pending_weight m' < pending_weight m"
    and "cm_pending m' = [] \<Longrightarrow> getRefCount (cm_refs m') = 0 \<and> last (cm_io m') = NotifyReturned"
proof -
  from assms(1) obtain i c ts where c: "i < length (cm_pending m)" "completes (cm_pending m ! i) c" "op_fails c"
      "complete_op host em ts i c m = Inr m'"
    by (cases rule: cm_fail_step.cases)
  show "cm_reachable host em m'"
    using assms(2) cm_step.completion [OF c(1,2,4)] by (rule cm_reachable.step)
  from complete_op_returns [OF ops_wf_reachable [OF assms(2)] c(1,2) failure_not_empty_body [OF c(3)], of host em ts] c(3,4)
  show "pending_weight m' < pending_weight m" by auto
  have "refs_surplus 0 m" using cm_reachable_invariants [OF assms(2)] by blast
  then show "cm_pending m' = [] \<Longrightarrow> getRefCount (cm_refs m') = 0 \<and> last (cm_io m') = NotifyReturned"
    using c(1,4) by (rule last_handler_notifies)
qed

lemma fail_step_enabled:
  assumes "cm_reachable host em m" and "i < length (cm_pending m)"
  shows "\<exists>m'. cm_fail_step host em m m'"
proof -
  obtain c where c: "completes (cm_pending m ! i) c" "op_fails c" using failing_completion by blast
  from complete_op_returns [OF ops_wf_reachable [OF assms(1)] assms(2) c(1) failure_not_empty_body [OF c(2)],
      of host em ThreadStarted]
  obtain m' where "complete_op host em ThreadStarted i c m = Inr m'" by blast
  from cm_fail_step.fail [OF assms(2) c this] show ?thesis by blast
qed

lemma fail_run:
  "(cm_fail_step host em ^^ n) m m' \<Longrightarrow> cm_reachable host em m \<Longrightarrow>
   cm_reachable host em m' \<and> pending_weight m' + n \<le> pending_weight m \<and>
   (cm_pending m' = [] \<and> 0 < n \<longrightarrow> getRefCount (cm_refs m') = 0 \<and> last (cm_io m') = NotifyReturned)"
proof (induction n arbitrary: m')
  case 0
  then show ?case by simp
next
  case (Suc n)
  from Suc.prems(1) obtain u where u: "(cm_fail_step host em ^^ n) m u" "cm_fail_step host em u m'" by auto
  from Suc.IH [OF u(1) Suc.prems(2)] have r: "cm_reachable host em u" "pending_weight u + n \<le> pending_weight m" by simp_all
  from fail_step [OF u(2) r(1)] r(2) show ?case by auto
qed



end
