(* ===== verification/ClientStream.thy ===== *)
theory ClientStream
  imports ClientLife
begin

text \<open>
  The client as a reader of a byte stream: the machine provides the contract
  \<open>packet_reader\<close>, so it finds in what the network sends exactly the packets the
  reference parser finds, delivers their messages in order, and closes the
  connection at the first header it refuses.
\<close>

section \<open>The pending read\<close>

definition is_stream_read :: "async_op \<Rightarrow> bool" where
  "is_stream_read op = (case op of OpReadHeader \<Rightarrow> True | OpReadBody n \<Rightarrow> True | _ \<Rightarrow> False)"

definition stream_read_size :: "async_op \<Rightarrow> nat" where
  "stream_read_size op = (case op of OpReadHeader \<Rightarrow> segm_header_length | OpReadBody n \<Rightarrow> n | _ \<Rightarrow> 0)"

lemma stream_read_simps [simp]:
  "is_stream_read OpReadHeader" "is_stream_read (OpReadBody n)" "\<not> is_stream_read (OpWrite d)"
  "\<not> is_stream_read (OpResolve h s)" "\<not> is_stream_read (OpConnect eps)"
  "stream_read_size OpReadHeader = 4" "stream_read_size (OpReadBody n) = n"
  by (simp_all add: is_stream_read_def stream_read_size_def segm_header_length_def)

definition cm_want :: "clientnode_machine \<Rightarrow> nat option" where
  "cm_want m =
     (let k = first_index is_stream_read (cm_pending m)
      in if k < length (cm_pending m) then Some (stream_read_size (cm_pending m ! k)) else None)"

text \<open>The bytes asked for arrive.\<close>

definition cm_arrive ::
  "endianness \<Rightarrow> (error_code \<Rightarrow> string) \<Rightarrow> thread_start \<Rightarrow> byte list \<Rightarrow> clientnode_machine
     \<Rightarrow> clientnode_machine result" where
  "cm_arrive host em ts data m =
     complete_op host em ts (first_index is_stream_read (cm_pending m)) (ReadDone Success (length data) data) m"

definition other_ops :: "clientnode_machine \<Rightarrow> async_op list" where
  "other_ops m = filter (\<lambda>op. \<not> is_stream_read op) (cm_pending m)"

definition cm_awaiting :: "nat \<Rightarrow> clientnode_machine \<Rightarrow> bool" where
  "cm_awaiting n m \<longleftrightarrow> cm_state m = StateConnected \<and> filter is_stream_read (cm_pending m) = [OpReadHeader]"

text \<open>The message in a packet, if it is a well-formed one.\<close>

definition packet_signals :: "byte list \<Rightarrow> cn_signal list" where
  "packet_signals p = delivered (sd_of_block (drop 4 p))"

definition cm_consumed ::
  "endianness \<Rightarrow> (error_code \<Rightarrow> string) \<Rightarrow> byte list \<Rightarrow> clientnode_machine \<Rightarrow> clientnode_machine \<Rightarrow> bool" where
  "cm_consumed host em p m m' \<longleftrightarrow>
     cm_steps host em m m' \<and> cm_signals m' = cm_signals m @ packet_signals p \<and> other_ops m' = other_ops m"

definition cm_refused :: "byte list \<Rightarrow> clientnode_machine \<Rightarrow> clientnode_machine result \<Rightarrow> bool" where
  "cm_refused hdr m r \<longleftrightarrow>
     (\<exists>m' why. r = Inr m' \<and> header_verdict hdr = Inl why \<and> cm_state m' = StateWaiting \<and>
        cm_signals m' = cm_signals m @ [disconnected_rprt STCHR_SOCKET_CLOSED why] \<and>
        cm_want m' = None \<and> other_ops m' = other_ops m)"

lemma cm_want_single:
  assumes "filter is_stream_read (cm_pending m) = [op]"
  shows "cm_want m = Some (stream_read_size op)"
proof -
  from assms obtain ys zs where "cm_pending m = ys @ op # zs"
      "first_index is_stream_read (cm_pending m) = length ys"
    by (rule filter_single) blast
  then show ?thesis by (simp add: cm_want_def)
qed

lemma cm_want_none: "filter is_stream_read (cm_pending m) = [] \<Longrightarrow> cm_want m = None"
  by (simp add: cm_want_def first_index_def filter_empty_conv takeWhile_eq_all_conv [THEN iffD2])

lemma other_ops_parts:
  "\<forall>y \<in> set ys \<union> set zs. \<not> is_stream_read y \<Longrightarrow> cm_pending m = ys @ op # zs \<Longrightarrow> is_stream_read op \<Longrightarrow>
   other_ops m = ys @ zs"
  by (simp add: other_ops_def)

section \<open>Arrivals\<close>

text \<open>A header arrives.\<close>

lemma header_arrives:
  assumes "cm_awaiting n m" and "length hdr = 4"
  shows "\<exists>m'. cm_arrive host em ts hdr m = Inr m' \<and> cm_step host em m m' \<and> other_ops m' = other_ops m \<and>
     (case header_verdict hdr of
        Inr k \<Rightarrow> cm_state m' = StateConnected \<and> cm_signals m' = cm_signals m \<and>
          filter is_stream_read (cm_pending m') = [OpReadBody k]
      | Inl why \<Rightarrow> cm_state m' = StateWaiting \<and> filter is_stream_read (cm_pending m') = [] \<and>
          cm_signals m' = cm_signals m @ [disconnected_rprt STCHR_SOCKET_CLOSED why])"
proof -
  from assms(1) have st: "cm_state m = StateConnected" and rd: "filter is_stream_read (cm_pending m) = [OpReadHeader]"
    by (simp_all add: cm_awaiting_def)
  from rd obtain ys zs where p: "cm_pending m = ys @ OpReadHeader # zs"
      "first_index is_stream_read (cm_pending m) = length ys"
      "filter is_stream_read ys = []" "filter is_stream_read zs = []"
      "\<forall>y \<in> set ys \<union> set zs. \<not> is_stream_read y"
    by (rule filter_single) blast
  let ?m = "m\<lparr>cm_pending := ys @ zs\<rparr>"
  from header_handler_effect [of ?m hdr host em ts] st assms(2) obtain m1 where
      m1: "receiveSegmentationHeaderHandler host em ts Success 4 hdr ?m = Inr m1"
        "case header_verdict hdr of
          Inr k \<Rightarrow> cm_state m1 = StateConnected \<and> cm_signals m1 = cm_signals m \<and>
            cm_pending m1 = ys @ zs @ [OpReadBody k]
        | Inl why \<Rightarrow> cm_state m1 = StateWaiting \<and> cm_pending m1 = ys @ zs \<and>
            cm_signals m1 = cm_signals m @ [disconnected_rprt STCHR_SOCKET_CLOSED why]"
    by (cases "header_verdict hdr") auto
  then have run: "complete_op host em ts (length ys) (ReadDone Success 4 hdr) m = Inr (release_ref m1)"
    by (simp add: complete_op_def p(1) remove_nth_middle)
  have "cm_step host em m (release_ref m1)"
    by (rule cm_step.completion [OF _ _ run]) (simp_all add: p(1) assms(2) segm_header_length_def)
  moreover have "other_ops m = ys @ zs" by (rule other_ops_parts [OF p(5,1)]) simp
  ultimately show ?thesis
    using run m1(2) p assms(2)
    by (auto simp: cm_arrive_def other_ops_def split: sum.splits)
qed

text \<open>A body arrives.\<close>

lemma body_arrives:
  assumes "cm_state m = StateConnected" and "filter is_stream_read (cm_pending m) = [OpReadBody (length body)]"
    and "body \<noteq> []"
  shows "\<exists>m'. cm_arrive host em ts body m = Inr m' \<and> cm_step host em m m' \<and> cm_awaiting n m' \<and>
     cm_signals m' = cm_signals m @ delivered (sd_of_block body) \<and> other_ops m' = other_ops m"
proof -
  from assms(2) obtain ys zs where p: "cm_pending m = ys @ OpReadBody (length body) # zs"
      "first_index is_stream_read (cm_pending m) = length ys"
      "filter is_stream_read ys = []" "filter is_stream_read zs = []"
      "\<forall>y \<in> set ys \<union> set zs. \<not> is_stream_read y"
    by (rule filter_single) blast
  let ?m = "m\<lparr>cm_pending := ys @ zs\<rparr>"
  from body_handler_effect [of ?m body host em ts] assms(1,3) obtain m1 where
      m1: "receiveSegmentationBodyHandler host em ts Success (length body) body ?m = Inr m1"
        "cm_state m1 = StateConnected" "cm_pending m1 = ys @ zs @ [OpReadHeader]"
        "cm_signals m1 = cm_signals m @ delivered (sd_of_block body)"
    by (auto simp: delivered_def)
  then have run: "complete_op host em ts (length ys) (ReadDone Success (length body) body) m = Inr (release_ref m1)"
    by (simp add: complete_op_def p(1) remove_nth_middle)
  have "cm_step host em m (release_ref m1)"
    by (rule cm_step.completion [OF _ _ run]) (simp_all add: p(1))
  moreover have "other_ops m = ys @ zs" by (rule other_ops_parts [OF p(5,1)]) simp
  ultimately show ?thesis
    using run m1 p by (auto simp: cm_arrive_def other_ops_def cm_awaiting_def)
qed

interpretation client_reader: packet_reader cm_want "cm_arrive host em ts" cm_awaiting "\<lambda>p. 4 < length p"
    "cm_consumed host em" cm_refused for host em ts
proof unfold_locales
  fix n m
  assume "cm_awaiting n m"
  then show "cm_want m = Some 4" using cm_want_single [of m OpReadHeader] by (simp add: cm_awaiting_def)
next
  fix n m hdr k
  assume a: "cm_awaiting n m" "length hdr = 4" "header_verdict hdr = Inr k"
  from header_arrives [OF a(1,2), of host em ts] a(3)
  show "\<exists>s1. cm_arrive host em ts hdr m = Inr s1 \<and> cm_want s1 = Some k"
    using cm_want_single by fastforce
next
  fix n m hdr body s1
  assume a: "cm_awaiting (Suc n) m" "length hdr = 4" "header_verdict hdr = Inr (length body)"
    "4 < length (hdr @ body)" "cm_arrive host em ts hdr m = Inr s1"
  from header_arrives [OF a(1,2), of host em ts] a(3,5) have s1: "cm_state s1 = StateConnected"
      "filter is_stream_read (cm_pending s1) = [OpReadBody (length body)]" "cm_step host em m s1"
      "cm_signals s1 = cm_signals m" "other_ops s1 = other_ops m"
    by auto
  have "body \<noteq> []" using a(2,4) by auto
  from body_arrives [OF s1(1,2) this, of host em ts n] obtain s2 where
      s2: "cm_arrive host em ts body s1 = Inr s2" "cm_step host em s1 s2" "cm_awaiting n s2"
        "cm_signals s2 = cm_signals s1 @ delivered (sd_of_block body)" "other_ops s2 = other_ops s1"
    by blast
  have "cm_steps host em m s2"
    using s1(3) s2(2) by (meson rtranclp.rtrancl_into_rtrancl rtranclp.rtrancl_refl)
  with s1 s2 a(2) show "\<exists>s2. cm_arrive host em ts body s1 = Inr s2 \<and> cm_awaiting n s2 \<and>
      cm_consumed host em (hdr @ body) m s2"
    by (auto simp: cm_consumed_def packet_signals_def)
next
  fix n m hdr why
  assume a: "cm_awaiting n m" "length hdr = 4" "header_verdict hdr = Inl why"
  from header_arrives [OF a(1,2), of host em ts] a(3)
  show "cm_refused hdr m (cm_arrive host em ts hdr m)"
    by (auto simp: cm_refused_def cm_want_none)
qed

section \<open>Streams\<close>

lemma cm_chain:
  "chain (cm_consumed host em) ps m m' \<Longrightarrow>
   cm_steps host em m m' \<and> cm_signals m' = cm_signals m @ concat (map packet_signals ps) \<and>
   other_ops m' = other_ops m"
proof (induction ps arbitrary: m)
  case Nil
  then show ?case by simp
next
  case (Cons p ps)
  then obtain u where u: "cm_consumed host em p m u" "chain (cm_consumed host em) ps u m'" by auto
  from u(1) have "cm_steps host em m u" "cm_signals u = cm_signals m @ packet_signals p" "other_ops u = other_ops m"
    by (simp_all add: cm_consumed_def)
  with Cons.IH [OF u(2)] show ?case by (auto intro: rtranclp_trans)
qed

lemma awaiting_any: "cm_awaiting n m = cm_awaiting k m"
  by (simp add: cm_awaiting_def)

lemma packet_signals_message:
  "packet_signals (segm_wire num_wire msg) = [RcvMessage msg]"
proof -
  have "num_wire msg \<noteq> []" "21 \<le> length (num_wire msg)" "hd (num_wire msg) = NUM_LAYER_ID"
    by (simp_all add: length_num_wire num_size_def) (simp_all add: num_wire_def)
  then show ?thesis
    by (simp add: packet_signals_def segm_wire_def delivered_def num_parse_wire)
qed

text \<open>Whole packets: what they hold is delivered, and the machine waits for the next.\<close>

lemma packets_are_read:
  assumes "cm_awaiting 0 m" and "list_all framed ps" and "list_all (\<lambda>p. 4 < length p) ps"
  shows "\<exists>m'. feeds cm_want (cm_arrive host em ts) (concat ps) m (Inr m') [] \<and> cm_awaiting 0 m' \<and>
     cm_steps host em m m' \<and> cm_signals m' = cm_signals m @ concat (map packet_signals ps) \<and>
     other_ops m' = other_ops m"
proof -
  have "cm_awaiting (length ps + 0) m" using assms(1) awaiting_any by blast
  from client_reader.packets_feed [OF this assms(2,3), of host em ts] obtain t where
      t: "cm_awaiting 0 t" "chain (cm_consumed host em) ps m t"
        "\<And>bs r rest. feeds cm_want (cm_arrive host em ts) bs t r rest \<Longrightarrow>
           feeds cm_want (cm_arrive host em ts) (concat ps @ bs) m r rest"
    by blast
  from client_reader.partial_header_feeds [OF t(1), of "[]" host em ts]
  have "feeds cm_want (cm_arrive host em ts) [] t (Inr t) []" by simp
  from t(3) [OF this] t(1) cm_chain [OF t(2)] show ?thesis by auto
qed

text \<open>
  C5. A connected client finds in any byte stream from the network exactly the
  packets the reference parser \<open>frames\<close> finds: the application gets the messages
  in them, in order, and an incomplete packet keeps the connection open, while
  the first header the parser refuses closes it with that reason.  No packet
  may have an empty body.
\<close>

theorem client_reads_stream:
  assumes "cm_awaiting 0 m" and "list_all (\<lambda>p. 4 < length p) (fst (frames bs))"
  shows "\<exists>m' rest. feeds cm_want (cm_arrive host em ts) bs m (Inr m') rest \<and>
     cm_signals m' = cm_signals m @ concat (map packet_signals (fst (frames bs))) @
       (case snd (frames bs) of Incomplete r \<Rightarrow> []
        | Refused why r \<Rightarrow> [disconnected_rprt STCHR_SOCKET_CLOSED why]) \<and>
     cm_state m' = (case snd (frames bs) of Incomplete r \<Rightarrow> StateConnected | Refused why r \<Rightarrow> StateWaiting) \<and>
     other_ops m' = other_ops m"
proof -
  have "cm_awaiting (length (fst (frames bs))) m" using assms(1) awaiting_any by blast
  from client_reader.stream_feeds [OF this assms(2), of host em ts] obtain t where
      t: "chain (cm_consumed host em) (fst (frames bs)) m t" "cm_awaiting 0 t" and
      e: "case snd (frames bs) of
        Incomplete r \<Rightarrow>
          if length r < 4 then feeds cm_want (cm_arrive host em ts) bs m (Inr t) r
          else \<exists>t1. cm_arrive host em ts (take 4 r) t = Inr t1 \<and>
            feeds cm_want (cm_arrive host em ts) bs m (Inr t1) (drop 4 r)
      | Refused why r \<Rightarrow> cm_refused (take 4 r) t (cm_arrive host em ts (take 4 r) t) \<and>
          (\<forall>t1 res rest. cm_arrive host em ts (take 4 r) t = Inr t1 \<longrightarrow>
             feeds cm_want (cm_arrive host em ts) (drop 4 r) t1 res rest \<longrightarrow>
             feeds cm_want (cm_arrive host em ts) bs m res rest) \<and>
          (\<forall>f. cm_arrive host em ts (take 4 r) t = Inl f \<longrightarrow>
             feeds cm_want (cm_arrive host em ts) bs m (Inl f) (drop 4 r))"
    by blast
  note ch = cm_chain [OF t(1)]
  from t(2) have conn: "cm_state t = StateConnected" by (simp add: cm_awaiting_def)
  show ?thesis
  proof (cases "snd (frames bs)")
    case (Incomplete r)
    show ?thesis
    proof (cases "length r < 4")
      case True
      with e Incomplete ch conn show ?thesis by auto
    next
      case False
      with e Incomplete obtain t1 where
          t1: "cm_arrive host em ts (take 4 r) t = Inr t1"
            "feeds cm_want (cm_arrive host em ts) bs m (Inr t1) (drop 4 r)" by auto
      from frames_end [of bs] Incomplete False obtain k where "header_verdict (take 4 r) = Inr k" by auto
      with header_arrives [OF t(2), of "take 4 r" host em ts] False t1(1)
      have "cm_state t1 = StateConnected" "cm_signals t1 = cm_signals t" "other_ops t1 = other_ops t" by auto
      with t1 ch Incomplete show ?thesis by auto
    qed
  next
    case (Refused why r)
    with e obtain t1 where t1: "cm_arrive host em ts (take 4 r) t = Inr t1"
        "header_verdict (take 4 r) = Inl why" "cm_state t1 = StateWaiting" "cm_want t1 = None"
        "cm_signals t1 = cm_signals t @ [disconnected_rprt STCHR_SOCKET_CLOSED why]" "other_ops t1 = other_ops t"
      using frames_end [of bs] by (auto simp: cm_refused_def)
    have "feeds cm_want (cm_arrive host em ts) (drop 4 r) t1 (Inr t1) (drop 4 r)"
      by (rule feeds_stop) (simp add: t1(4))
    with e Refused t1(1) have "feeds cm_want (cm_arrive host em ts) bs m (Inr t1) (drop 4 r)" by auto
    with t1 ch Refused show ?thesis by auto
  qed
qed

lemma client_reads_stream_witness:
  "\<exists>m' rest. feeds cm_want (cm_arrive LittleEndian demo_em ThreadStarted) [0x80, 5, 0, 0, 7, 0x81, 0, 0, 0, 9]
       (demo_machine StateConnected [OpReadHeader]) (Inr m') rest \<and>
     cm_signals m' = [disconnected_rprt STCHR_SOCKET_CLOSED ''Invalid packet header''] \<and>
     cm_state m' = StateWaiting"
proof -
  have "header_verdict [0x80, 5, 0, 0] = Inr 1" "header_verdict [0x81, 0, 0, 0] = Inl ''Invalid packet header''"
    by (simp_all add: header_verdict_cases packet_length_def)
  then have fr: "frames [0x80, 5, 0, 0, 7, 0x81, 0, 0, 0, 9] =
      ([[0x80, 5, 0, 0, 7]], Refused ''Invalid packet header'' [0x81, 0, 0, 0, 9])"
    by (simp add: frames.simps)
  have "packet_signals [0x80, 5, 0, 0, 7] = []" by (simp add: packet_signals_def delivered_def)
  moreover have "cm_awaiting 0 (demo_machine StateConnected [OpReadHeader])" by (simp add: cm_awaiting_def)
  ultimately show ?thesis
    using client_reads_stream [of "demo_machine StateConnected [OpReadHeader]"
        "[0x80, 5, 0, 0, 7, 0x81, 0, 0, 0, 9]" LittleEndian demo_em ThreadStarted]
    by (simp add: fr) blast
qed

end
