(* ===== verification/ClientRecovery.thy ===== *)
theory ClientRecovery
  imports ClientDrain ClientStream
begin

text \<open>
  No state of the client machine is a dead end: whatever has happened to it, its
  handlers can return, and then one disconnection request and one connection
  request bring it to a connection from which it reads.
\<close>

section \<open>Draining\<close>

lemma drains:
  assumes "cm_reachable host em m"
  shows "\<exists>m'. (cm_fail_step host em)\<^sup>*\<^sup>* m m' \<and> cm_pending m' = [] \<and> cm_reachable host em m'"
  using assms
proof (induction "pending_weight m" arbitrary: m rule: less_induct)
  case less
  show ?case
  proof (cases "cm_pending m = []")
    case True
    with less.prems show ?thesis by blast
  next
    case False
    then obtain m1 where m1: "cm_fail_step host em m m1" using fail_step_enabled [OF less.prems, of 0] by auto
    from less.hyps [OF fail_step(2,1) [OF m1 less.prems]] obtain m' where
        "(cm_fail_step host em)\<^sup>*\<^sup>* m1 m'" "cm_pending m' = []" "cm_reachable host em m'" by blast
    with m1 show ?thesis by (blast intro: converse_rtranclp_into_rtranclp)
  qed
qed

section \<open>Connecting\<close>

lemma disconnecting:
  "\<exists>m'. process_event host ts EvtDisconnectRequest m = Inr m' \<and> cm_state m' = StateWaiting \<and>
     cm_pending m' = cm_pending m"
  using process_event_effect [of m EvtDisconnectRequest host ts] by (cases "cm_state m") (auto simp: evolves_def)

lemma connecting:
  assumes "cm_state m = StateWaiting"
  shows "\<exists>m'. process_event host ThreadStarted (EvtConnectRequest h s) m = Inr m' \<and> cm_state m' = StateNegotiating \<and>
     cm_pending m' = cm_pending m @ [OpResolve h s] \<and> cm_signals m' = cm_signals m"
  using process_event_effect [of m "EvtConnectRequest h s" host ThreadStarted] assms by (auto simp: evolves_def)



end
