(* ===== verification/ClientLocking.thy ===== *)
theory ClientLocking
  imports ClientDrain
begin

text \<open>
  The mutex of the client machine (\<open>machine_mutex\<close>): what each call of the facade
  (\<open>clientnode.cpp\<close>) and each handler (\<open>statemachine.cpp\<close>) locks, and when it is
  inside the machine or uses the socket.  Everywhere else in the library a call or
  a handler is one step; here it is the list of its accesses, and the accesses of
  all threads interleave.

  Of Boost the model uses: the mutex has one holder, and locking it blocks while
  there is one, also when the holder itself locks again.
\<close>

section \<open>Threads and the mutex\<close>

datatype shared_object = Machine | Socket

datatype access = Acquire | Release | Enter shared_object | Leave shared_object

text \<open>A thread: the objects it is using, and the accesses it has still to make.\<close>

type_synonym thread = "shared_object set \<times> access list"

record locking =
  lk_holder :: "nat option"
  lk_threads :: "thread list"

definition lk_start :: "access list list \<Rightarrow> locking" where
  "lk_start ps = \<lparr>lk_holder = None, lk_threads = map (Pair {}) ps\<rparr>"

text \<open>The next access of a thread; \<open>None\<close> when it blocks or has ended.\<close>

fun do_access :: "nat \<Rightarrow> thread \<Rightarrow> nat option \<Rightarrow> (nat option \<times> thread) option" where
  "do_access i (us, []) h = None"
| "do_access i (us, Acquire # as) h = (if h = None then Some (Some i, us, as) else None)"
| "do_access i (us, Release # as) h = Some (None, us, as)"
| "do_access i (us, Enter r # as) h = Some (h, insert r us, as)"
| "do_access i (us, Leave r # as) h = Some (h, us - {r}, as)"

definition lk_step :: "nat \<Rightarrow> locking \<Rightarrow> locking option" where
  "lk_step i c =
     (if i < length (lk_threads c)
      then map_option (\<lambda>(h, t). \<lparr>lk_holder = h, lk_threads = (lk_threads c)[i := t]\<rparr>)
             (do_access i (lk_threads c ! i) (lk_holder c))
      else None)"

fun lk_run :: "nat list \<Rightarrow> locking \<Rightarrow> locking option" where
  "lk_run [] c = Some c"
| "lk_run (i # is) c = Option.bind (lk_step i c) (lk_run is)"

definition uses :: "nat \<Rightarrow> shared_object \<Rightarrow> locking \<Rightarrow> bool" where
  "uses i r c \<longleftrightarrow> i < length (lk_threads c) \<and> r \<in> fst (lk_threads c ! i)"

section \<open>What the code locks\<close>

text \<open>
  A handler declares a lock, \<open>boost::mutex::scoped_lock lk(...)\<close>, which is held to
  the end of the block.  A call of the facade has only
  \<open>boost::mutex::scoped_lock{machine_mutex};\<close>, a temporary that is destroyed at the
  end of that statement.
\<close>

definition named_guard :: "access list \<Rightarrow> access list" where
  "named_guard body = Acquire # body @ [Release]"

definition temporary_guard :: "access list \<Rightarrow> access list" where
  "temporary_guard body = [Acquire, Release] @ body"

text \<open>
  A use of the socket, and \<open>process_event\<close>; the flag says if the reaction uses the
  socket: to write a message, or to close it when \<open>StateWaiting\<close> is entered.
\<close>

definition socket_use :: "access list" where
  "socket_use = [Enter Socket, Leave Socket]"

definition event_accesses :: "bool \<Rightarrow> access list" where
  "event_accesses u = [Enter Machine] @ (if u then socket_use else []) @ [Leave Machine]"

datatype facade_call = CallConnectTo server_location | CallSendUserMessage | CallDisconnect

fun call_accesses :: "(access list \<Rightarrow> access list) \<Rightarrow> (string \<Rightarrow> string \<Rightarrow> string list) \<Rightarrow> facade_call \<Rightarrow> bool \<Rightarrow> access list" where
  "call_accesses guard tokenize (CallConnectTo w) u =
     (if fst (parseDestinationString tokenize '''' '''' (where_string w))
      then guard (event_accesses u) else [])"
| "call_accesses guard tokenize CallSendUserMessage u = guard (event_accesses u)"
| "call_accesses guard tokenize CallDisconnect u = guard (event_accesses u)"

text \<open>
  The accesses of a handler, on the branches of the handlers in
  \<^theory_text>\<open>ClientHandlers\<close>.
\<close>

definition resolve_accesses :: "error_code \<Rightarrow> endpoint list \<Rightarrow> bool \<Rightarrow> access list" where
  "resolve_accesses ec eps u =
     (if eps = [] then (if ec = OperationAborted then [] else named_guard (event_accesses u)) else socket_use)"

definition connect_accesses :: "error_code \<Rightarrow> endpoint list \<Rightarrow> bool \<Rightarrow> access list" where
  "connect_accesses ec eps u =
     (if ec = Success then socket_use @ named_guard (event_accesses u)
      else if tl eps \<noteq> [] then socket_use @ socket_use
      else if ec = OperationAborted then [] else named_guard (event_accesses u))"

definition write_accesses :: "error_code \<Rightarrow> bool \<Rightarrow> access list" where
  "write_accesses ec u = (if ec = Success then [] else named_guard (event_accesses u))"

definition header_accesses :: "endianness \<Rightarrow> error_code \<Rightarrow> nat \<Rightarrow> byte list \<Rightarrow> bool \<Rightarrow> access list" where
  "header_accesses host ec n data u =
     (if ec \<noteq> Success \<or> n \<noteq> segm_header_length
      then (if ec = OperationAborted then [] else named_guard (event_accesses u))
      else (case body_buffer host (MsgLayerError ''Oversized packet.'') data of
              Inr body_buf \<Rightarrow> socket_use
            | Inl e \<Rightarrow> named_guard (event_accesses u)))"

definition body_accesses :: "error_code \<Rightarrow> bool \<Rightarrow> access list" where
  "body_accesses ec u =
     (if ec \<noteq> Success then named_guard (event_accesses u)
      else named_guard (event_accesses u) @ socket_use)"

fun handler_accesses :: "endianness \<Rightarrow> async_op \<Rightarrow> completion \<Rightarrow> bool \<Rightarrow> access list" where
  "handler_accesses host (OpResolve h s) (ResolveDone ec eps) u = resolve_accesses ec eps u"
| "handler_accesses host (OpConnect eps) (ConnectDone ec) u = connect_accesses ec eps u"
| "handler_accesses host OpReadHeader (ReadDone ec n data) u = header_accesses host ec n data u"
| "handler_accesses host (OpReadBody k) (ReadDone ec n data) u = body_accesses ec u"
| "handler_accesses host (OpWrite data) (WriteDone ec n) u = write_accesses ec u"
| "handler_accesses host _ _ u = []"

lemmas handler_access_defs =
  resolve_accesses_def connect_accesses_def write_accesses_def header_accesses_def body_accesses_def

lemmas access_defs = named_guard_def temporary_guard_def event_accesses_def socket_use_def

lemma handler_accesses_cases:
  "handler_accesses host op c u \<in> {[], socket_use, socket_use @ socket_use, named_guard (event_accesses u),
     socket_use @ named_guard (event_accesses u), named_guard (event_accesses u) @ socket_use}"
  by (cases "(host, op, c, u)" rule: handler_accesses.cases)
    (simp_all add: handler_access_defs split: sum.split)

text \<open>A handler that is never inside the machine leaves its state as it was.\<close>

lemma handler_outside_machine:
  "Enter Machine \<notin> set (handler_accesses host op c u) \<Longrightarrow> op \<noteq> OpConnect [] \<Longrightarrow>
   run_handler host em ts op c m = Inr m' \<Longrightarrow> cm_state m' = cm_state m"
  by (cases "(host, op, c, u)" rule: handler_accesses.cases)
    (auto simp: handler_defs access_defs handler_access_defs Let_def rbind_def fold_log_simps
      split: if_splits sum.splits list.splits)

section \<open>Guarded threads\<close>

text \<open>
  A sequence of accesses that is inside the machine only while it holds the mutex,
  and gives the mutex back.  The flags say if it holds it, and if it is inside.
\<close>

fun guarded :: "bool \<Rightarrow> bool \<Rightarrow> access list \<Rightarrow> bool" where
  "guarded held inside [] \<longleftrightarrow> \<not> held \<and> \<not> inside"
| "guarded held inside (Acquire # as) \<longleftrightarrow> \<not> held \<and> guarded True inside as"
| "guarded held inside (Release # as) \<longleftrightarrow> held \<and> \<not> inside \<and> guarded False inside as"
| "guarded held inside (Enter r # as) \<longleftrightarrow>
     (if r = Machine then held \<and> guarded held True as else guarded held inside as)"
| "guarded held inside (Leave r # as) \<longleftrightarrow>
     (if r = Machine then guarded held False as else guarded held inside as)"

lemma guarded_append: "guarded h n as \<Longrightarrow> guarded False False bs \<Longrightarrow> guarded h n (as @ bs)"
  by (induction h n as rule: guarded.induct) (auto split: if_splits)

lemma guarded_concat: "(\<And>as. as \<in> set ass \<Longrightarrow> guarded False False as) \<Longrightarrow> guarded False False (concat ass)"
  by (induction ass) (simp_all add: guarded_append)

lemma guarded_event: "guarded False False (named_guard (event_accesses u))" "guarded False False socket_use"
  by (simp_all add: access_defs)

lemma guarded_handler: "guarded False False (handler_accesses host op c u)"
  using handler_accesses_cases [of host op c u] guarded_event by (auto intro!: guarded_append)

lemma guarded_call: "guarded False False (call_accesses named_guard tokenize k u)"
  by (cases k) (simp_all add: guarded_event)

definition thread_ok :: "nat \<Rightarrow> nat option \<Rightarrow> thread \<Rightarrow> bool" where
  "thread_ok i h t \<longleftrightarrow>
     guarded (h = Some i) (Machine \<in> fst t) (snd t) \<and> (Machine \<in> fst t \<longrightarrow> h = Some i)"

definition locking_inv :: "locking \<Rightarrow> bool" where
  "locking_inv c \<longleftrightarrow>
     (\<forall>i < length (lk_threads c). thread_ok i (lk_holder c) (lk_threads c ! i)) \<and>
     (\<forall>i. lk_holder c = Some i \<longrightarrow> i < length (lk_threads c))"

lemma locking_inv_start: "(\<And>p. p \<in> set ps \<Longrightarrow> guarded False False p) \<Longrightarrow> locking_inv (lk_start ps)"
  by (simp add: locking_inv_def thread_ok_def lk_start_def)

lemma do_access_ok:
  assumes "do_access i t h = Some (h', t')" and "thread_ok i h t"
  shows "thread_ok i h' t' \<and> (h' = h \<or> h = None \<and> h' = Some i \<or> h = Some i \<and> h' = None)"
  using assms by (cases "(i, t, h)" rule: do_access.cases) (auto simp: thread_ok_def split: if_splits)

lemma lk_step_inv:
  assumes "lk_step i c = Some c'" and "locking_inv c"
  shows "locking_inv c'"
proof -
  let ?ts = "lk_threads c"
  from assms(1) obtain h t where i: "i < length ?ts" and d: "do_access i (?ts ! i) (lk_holder c) = Some (h, t)"
    and c': "c' = \<lparr>lk_holder = h, lk_threads = ?ts[i := t]\<rparr>"
    unfolding lk_step_def by (auto split: if_splits)
  from assms(2) i have "thread_ok i (lk_holder c) (?ts ! i)" by (simp add: locking_inv_def)
  from do_access_ok [OF d this] have own: "thread_ok i h t" and
    h: "h = lk_holder c \<or> lk_holder c = None \<and> h = Some i \<or> lk_holder c = Some i \<and> h = None"
    by simp_all
  have same: "(h = Some j) = (lk_holder c = Some j)" if "j \<noteq> i" for j using h that by auto
  have "thread_ok j h (?ts[i := t] ! j)" if "j < length ?ts" for j
  proof (cases "j = i")
    case True
    then show ?thesis using own i by simp
  next
    case False
    from assms(2) that have "thread_ok j (lk_holder c) (?ts ! j)" unfolding locking_inv_def by blast
    with same [OF False] False show ?thesis unfolding thread_ok_def by simp
  qed
  moreover have "j < length ?ts" if "h = Some j" for j
    using that same [of j] assms(2) i unfolding locking_inv_def by (cases "j = i") blast+
  ultimately show ?thesis by (simp add: locking_inv_def c')
qed

lemma lk_run_inv: "lk_run is c = Some c' \<Longrightarrow> locking_inv c \<Longrightarrow> locking_inv c'"
proof (induction "is" arbitrary: c)
  case (Cons i "is")
  then obtain d where "lk_step i c = Some d" "lk_run is d = Some c'" by (auto simp: bind_eq_Some_conv)
  with Cons.IH lk_step_inv Cons.prems(2) show ?case by blast
qed simp

text \<open>
  Threads that are guarded exclude each other from the machine, and never block
  each other for ever.
\<close>

lemma guarded_exclusion:
  "locking_inv c \<Longrightarrow> uses i Machine c \<Longrightarrow> uses j Machine c \<Longrightarrow> i = j"
  unfolding locking_inv_def uses_def thread_ok_def by (metis option.inject)

lemma thread_steps:
  assumes "j < length (lk_threads c)" and "snd (lk_threads c ! j) \<noteq> []"
    and "lk_holder c = None \<or> lk_holder c = Some j \<and> hd (snd (lk_threads c ! j)) \<noteq> Acquire"
  shows "lk_step j c \<noteq> None"
  using assms by (cases "(j, lk_threads c ! j, lk_holder c)" rule: do_access.cases) (auto simp: lk_step_def)

lemma guarded_progress:
  assumes "locking_inv c" and "i < length (lk_threads c)" and "snd (lk_threads c ! i) \<noteq> []"
  shows "\<exists>j. lk_step j c \<noteq> None"
proof (cases "lk_holder c")
  case None
  with thread_steps [OF assms(2,3)] show ?thesis by blast
next
  case (Some j)
  with assms(1) have j: "j < length (lk_threads c)" "guarded True (Machine \<in> fst (lk_threads c ! j)) (snd (lk_threads c ! j))"
    unfolding locking_inv_def thread_ok_def by (metis (full_types))+
  then have "snd (lk_threads c ! j) \<noteq> [] \<and> hd (snd (lk_threads c ! j)) \<noteq> Acquire"
    by (cases "snd (lk_threads c ! j)") auto
  with thread_steps [OF j(1)] Some show ?thesis by blast
qed

section \<open>Calls and handlers\<close>

lemma guarded_threads:
  assumes "\<And>p. p \<in> set ps \<Longrightarrow> (\<exists>ass. p = concat ass \<and>
      (\<forall>as \<in> set ass. (\<exists>host op c u. as = handler_accesses host op c u) \<or>
         (\<exists>tokenize k u. as = call_accesses named_guard tokenize k u)))"
    and "lk_run is (lk_start ps) = Some c"
  shows "locking_inv c"
proof (rule lk_run_inv [OF assms(2) locking_inv_start])
  fix p assume "p \<in> set ps"
  from assms(1) [OF this] obtain ass where p: "p = concat ass" and
    as: "\<And>as. as \<in> set ass \<Longrightarrow> (\<exists>host op c u. as = handler_accesses host op c u) \<or>
         (\<exists>tokenize k u. as = call_accesses named_guard tokenize k u)" by blast
  have "guarded False False as" if "as \<in> set ass" for as
    using as [OF that] guarded_handler guarded_call by blast
  with p show "guarded False False p" by (simp add: guarded_concat)
qed

text \<open>Some interleaving of the threads has the first two of them use an object at the same time.\<close>

definition may_meet :: "shared_object \<Rightarrow> access list list \<Rightarrow> bool" where
  "may_meet r ps \<longleftrightarrow> (\<exists>sched c. lk_run sched (lk_start ps) = Some c \<and> uses 0 r c \<and> uses 1 r c)"

lemma may_meetI: "lk_run sched (lk_start ps) = Some c \<Longrightarrow> uses 0 r c \<Longrightarrow> uses 1 r c \<Longrightarrow> may_meet r ps"
  unfolding may_meet_def by blast

lemmas lk_exec = lk_start_def lk_step_def access_defs uses_def numeral_2_eq_2

lemma machine_race:
  "may_meet Machine [temporary_guard (event_accesses v), named_guard (event_accesses u)]"
  "may_meet Machine [temporary_guard (event_accesses v), named_guard (event_accesses u) @ socket_use]"
  "may_meet Machine [temporary_guard (event_accesses v), socket_use @ named_guard (event_accesses u)]"
  by (rule may_meetI [of "[0, 0, 0, 1, 1]"] may_meetI [of "[0, 0, 0, 1, 1, 1, 1]"],
      (simp add: lk_exec; fail)+)+

lemma socket_race:
  "may_meet Socket [named_guard (event_accesses True), socket_use]"
  "may_meet Socket [named_guard (event_accesses True), socket_use @ named_guard (event_accesses False)]"
  "may_meet Socket [named_guard (event_accesses True), socket_use @ socket_use]"
  "may_meet Socket [named_guard (event_accesses True), named_guard (event_accesses False) @ socket_use]"
  by (rule may_meetI [of "[0, 0, 0, 1]"], (simp add: lk_exec; fail)+)+
    (rule may_meetI [of "[1, 1, 1, 1, 1, 0, 0, 0]"], (simp add: lk_exec; fail)+)

lemma call_accesses_machine:
  "Enter Machine \<in> set (call_accesses temporary_guard tokenize k v) \<Longrightarrow>
   call_accesses g tokenize k v = g (event_accesses v)"
  by (cases k) (auto split: if_splits)

text \<open>
  C27. A call of the facade does not hold the mutex of the machine while it
  processes its event: some interleaving has it inside the machine together with
  any handler that processes one.  With the lock held to the end of the call, as
  the handlers do, they would exclude each other.  The socket would still be
  shared: the handlers start their next operation without the mutex, while the
  call may be writing to the socket, or closing it.
\<close>

theorem calls_do_not_lock:
  assumes "Enter Machine \<in> set (call_accesses temporary_guard tokenize k v)"
  shows "(Enter Machine \<in> set (handler_accesses host op c u) \<longrightarrow>
       may_meet Machine [call_accesses temporary_guard tokenize k v, handler_accesses host op c u]) \<and>
     \<not> may_meet Machine [call_accesses named_guard tokenize k v, handler_accesses host op c u] \<and>
     (v \<and> Enter Socket \<in> set (handler_accesses host op c False) \<longrightarrow>
       may_meet Socket [call_accesses named_guard tokenize k v, handler_accesses host op c False])"
proof (intro conjI impI)
  note call = call_accesses_machine [OF assms]
  assume "Enter Machine \<in> set (handler_accesses host op c u)"
  then show "may_meet Machine [call_accesses temporary_guard tokenize k v, handler_accesses host op c u]"
    using handler_accesses_cases [of host op c u] machine_race [of v u] unfolding call
    by (auto simp: socket_use_def)
next
  have "\<not> (uses 0 Machine d \<and> uses 1 Machine d)"
    if "lk_run sched (lk_start [call_accesses named_guard tokenize k v, handler_accesses host op c u]) = Some d" for sched d
    using guarded_exclusion [OF lk_run_inv [OF that locking_inv_start], of 0 1] guarded_call guarded_handler by force
  then show "\<not> may_meet Machine [call_accesses named_guard tokenize k v, handler_accesses host op c u]"
    unfolding may_meet_def by blast
next
  note call = call_accesses_machine [OF assms]
  assume "v \<and> Enter Socket \<in> set (handler_accesses host op c False)"
  then show "may_meet Socket [call_accesses named_guard tokenize k v, handler_accesses host op c False]"
    using handler_accesses_cases [of host op c False] socket_race unfolding call
    by (auto simp: named_guard_def event_accesses_def)
qed

lemma calls_do_not_lock_witness:
  "may_meet Machine [call_accesses temporary_guard char_separator_tokens CallDisconnect True,
     handler_accesses LittleEndian (OpReadBody 0) (ReadDone Success 0 []) False] \<and>
   may_meet Socket [call_accesses named_guard char_separator_tokens CallDisconnect True,
     handler_accesses LittleEndian (OpReadBody 0) (ReadDone Success 0 []) False]"
  using calls_do_not_lock [of char_separator_tokens CallDisconnect True LittleEndian "OpReadBody 0"
      "ReadDone Success 0 []" False]
  by (simp add: access_defs handler_access_defs)

text \<open>
  Slots are called inside the machine by a handler that holds the mutex.  A slot
  that calls the facade back stops the thread for ever.
\<close>

lemma slot_calling_back_blocks:
  "\<exists>sched c. lk_run sched (lk_start [named_guard (Enter Machine # call_accesses temporary_guard tokenize CallDisconnect u
       @ [Leave Machine])]) = Some c \<and> uses 0 Machine c \<and> (\<forall>i. lk_step i c = None)"
  by (rule exI [of _ "[0, 0]"]) (simp add: lk_exec)

end
