(* ===== verification/ClientShutdown.thy ===== *)
theory ClientShutdown
  imports ClientLife
begin

text \<open>
  The destruction of the client machine as two threads that interleave: the
  destructor of \<open>ClientnodeMachine\<close> (\<open>statemachine.cpp\<close>), and the thread of the
  service, whose handlers drop their references
  (\<open>ReferenceCounter::decreaseRefCount\<close> in \<open>refcounter.hpp\<close>, with \<open>on_returned\<close> as
  its action).  Everywhere else in the library a handler is one step; here every
  access to what the two threads share is one: the mutex of the counter, the
  count, the condition, the flag of the service that says it is stopped.

  Of Boost the model uses: \<open>io_service::run\<close> executes handlers until there are no
  more or it finds the service stopped; \<open>wait\<close> releases the mutex and blocks in one
  step, and returns when notified (spurious returns are left out);
  \<open>timed_join\<close> succeeds when the thread has ended, or gives up.
\<close>

section \<open>The two threads\<close>

datatype owner = ByDestructor | ByHandler

datatype dtor_pc = AtStop | AtReset | AtJoin | AtCheck | AtLock | AtWait | Waiting | Notified | Destroyed

datatype io_pc = InRun | InHandler | Locked | AtAction | AtUnlock | Ended

text \<open>
  \<open>sh_pending\<close>: handlers that are still to be called, all of them now that the
  socket is closed; \<open>sh_joined\<close>: the thread had ended when the destructor went on.
\<close>

record shutdown =
  sh_count :: nat
  sh_pending :: nat
  sh_mutex :: "owner option"
  sh_stopped :: bool
  sh_joined :: bool
  sh_dtor :: dtor_pc
  sh_io :: io_pc

text \<open>The destructor; \<open>catchThread\<close> interrupts and detaches a thread that does not end in time.\<close>

inductive dtor_step :: "shutdown \<Rightarrow> shutdown \<Rightarrow> bool" where
  dtor_stop: "sh_dtor s = AtStop \<Longrightarrow> dtor_step s (s\<lparr>sh_stopped := True, sh_dtor := AtReset\<rparr>)"
| dtor_reset: "sh_dtor s = AtReset \<Longrightarrow> dtor_step s (s\<lparr>sh_stopped := False, sh_dtor := AtJoin\<rparr>)"
| dtor_joined: "sh_dtor s = AtJoin \<Longrightarrow> sh_io s = Ended \<Longrightarrow>
    dtor_step s (s\<lparr>sh_joined := True, sh_dtor := AtCheck\<rparr>)"
| dtor_timeout: "sh_dtor s = AtJoin \<Longrightarrow> sh_io s \<noteq> Ended \<Longrightarrow> dtor_step s (s\<lparr>sh_dtor := AtCheck\<rparr>)"
| dtor_check: "sh_dtor s = AtCheck \<Longrightarrow>
    dtor_step s (s\<lparr>sh_dtor := (if sh_count s > 0 then AtLock else Destroyed)\<rparr>)"
| dtor_lock: "sh_dtor s = AtLock \<Longrightarrow> sh_mutex s = None \<Longrightarrow>
    dtor_step s (s\<lparr>sh_mutex := Some ByDestructor, sh_dtor := AtWait\<rparr>)"
| dtor_wait: "sh_dtor s = AtWait \<Longrightarrow> dtor_step s (s\<lparr>sh_mutex := None, sh_dtor := Waiting\<rparr>)"
| dtor_return: "sh_dtor s = Notified \<Longrightarrow> sh_mutex s = None \<Longrightarrow> dtor_step s (s\<lparr>sh_dtor := Destroyed\<rparr>)"

text \<open>
  The thread of the service.  A handler that was called ends by dropping its
  reference: lock, decrement, the action on zero, unlock.
\<close>

inductive io_step :: "shutdown \<Rightarrow> shutdown \<Rightarrow> bool" where
  io_call: "sh_io s = InRun \<Longrightarrow> \<not> sh_stopped s \<Longrightarrow> 0 < sh_pending s \<Longrightarrow>
    io_step s (s\<lparr>sh_pending := sh_pending s - 1, sh_io := InHandler\<rparr>)"
| io_end: "sh_io s = InRun \<Longrightarrow> sh_stopped s \<or> sh_pending s = 0 \<Longrightarrow> io_step s (s\<lparr>sh_io := Ended\<rparr>)"
| io_lock: "sh_io s = InHandler \<Longrightarrow> sh_mutex s = None \<Longrightarrow>
    io_step s (s\<lparr>sh_mutex := Some ByHandler, sh_io := Locked\<rparr>)"
| io_decrease: "sh_io s = Locked \<Longrightarrow>
    io_step s (s\<lparr>sh_count := sh_count s - 1, sh_io := (if sh_count s - 1 \<le> 0 then AtAction else AtUnlock)\<rparr>)"
| io_notify: "sh_io s = AtAction \<Longrightarrow>
    io_step s (s\<lparr>sh_dtor := (if sh_dtor s = Waiting then Notified else sh_dtor s), sh_io := AtUnlock\<rparr>)"
| io_unlock: "sh_io s = AtUnlock \<Longrightarrow> io_step s (s\<lparr>sh_mutex := None, sh_io := InRun\<rparr>)"

definition shutdown_step :: "shutdown \<Rightarrow> shutdown \<Rightarrow> bool" where
  "shutdown_step s s' \<longleftrightarrow> dtor_step s s' \<or> io_step s s'"

abbreviation shutdown_steps :: "shutdown \<Rightarrow> shutdown \<Rightarrow> bool" where
  "shutdown_steps \<equiv> shutdown_step\<^sup>*\<^sup>*"

text \<open>The destructor is entered with the count and the pending operations of the machine.\<close>

definition shutdown_of :: "clientnode_machine \<Rightarrow> shutdown" where
  "shutdown_of m = \<lparr>sh_count = unat (getRefCount (cm_refs m)), sh_pending = length (cm_pending m),
     sh_mutex = None, sh_stopped = False, sh_joined = False, sh_dtor = AtStop, sh_io = InRun\<rparr>"

inductive_cases dtor_stepE: "dtor_step s s'"
inductive_cases io_stepE: "io_step s s'"

section \<open>What holds at every moment\<close>

text \<open>The reference of the handler that runs, until it is dropped.\<close>

definition running :: "io_pc \<Rightarrow> nat" where
  "running pc = (if pc = InHandler \<or> pc = Locked then 1 else 0)"

definition shutdown_inv :: "shutdown \<Rightarrow> bool" where
  "shutdown_inv s \<longleftrightarrow>
     sh_count s = sh_pending s + running (sh_io s) \<and>
     (sh_mutex s = Some ByHandler \<longleftrightarrow> sh_io s \<in> {Locked, AtAction, AtUnlock}) \<and>
     (sh_mutex s = Some ByDestructor \<longleftrightarrow> sh_dtor s = AtWait) \<and>
     (sh_io s = AtAction \<longrightarrow> sh_count s = 0) \<and>
     (sh_dtor s = Notified \<longrightarrow> sh_count s = 0) \<and>
     (sh_joined s \<longrightarrow> sh_io s = Ended \<and> sh_dtor s \<notin> {AtStop, AtReset, AtJoin}) \<and>
     (sh_dtor s \<noteq> AtReset \<longrightarrow> \<not> sh_stopped s) \<and>
     (sh_dtor s = Destroyed \<and> sh_joined s \<longrightarrow> sh_count s = 0)"

lemma shutdown_inv_init:
  "cm_reachable host em m \<Longrightarrow> length (cm_pending m) < 2 ^ 32 \<Longrightarrow> shutdown_inv (shutdown_of m)"
  using cm_reachable_invariants [of host em m]
  by (simp add: shutdown_inv_def shutdown_of_def running_def refs_surplus_def getRefCount_def unat_of_nat
      take_bit_nat_eq_self)

lemma dtor_step_inv: "dtor_step s s' \<Longrightarrow> shutdown_inv s \<Longrightarrow> shutdown_inv s'"
  by (erule dtor_stepE) (auto simp: shutdown_inv_def running_def split: if_splits)

lemma io_step_inv: "io_step s s' \<Longrightarrow> shutdown_inv s \<Longrightarrow> shutdown_inv s'"
  by (erule io_stepE) (auto simp: shutdown_inv_def running_def split: if_splits)

lemma shutdown_steps_inv: "shutdown_steps s s' \<Longrightarrow> shutdown_inv s \<Longrightarrow> shutdown_inv s'"
  by (induction rule: rtranclp_induct) (auto simp: shutdown_step_def intro: dtor_step_inv io_step_inv)

section \<open>Outcomes\<close>

lemma dtor_runs: "dtor_step s s' \<Longrightarrow> shutdown_steps s' t \<Longrightarrow> shutdown_steps s t"
  by (rule converse_rtranclp_into_rtranclp) (simp_all add: shutdown_step_def)

lemma io_runs: "io_step s s' \<Longrightarrow> shutdown_steps s' t \<Longrightarrow> shutdown_steps s t"
  by (rule converse_rtranclp_into_rtranclp) (simp_all add: shutdown_step_def)

lemma waits_for_ever: "sh_dtor s = Waiting \<Longrightarrow> sh_io s = Ended \<Longrightarrow> \<not> shutdown_step s s'"
  by (auto simp: shutdown_step_def elim!: dtor_stepE io_stepE)



lemma handlers_finish:
  "sh_io s = InRun \<Longrightarrow> \<not> sh_stopped s \<Longrightarrow> sh_mutex s = None \<Longrightarrow> sh_dtor s = AtJoin \<Longrightarrow>
   sh_count s = sh_pending s \<Longrightarrow>
   shutdown_steps s (s\<lparr>sh_count := 0, sh_pending := 0, sh_joined := True, sh_dtor := Destroyed, sh_io := Ended\<rparr>)"
proof (induction "sh_pending s" arbitrary: s)
  case 0
  then have "sh_pending s = 0" "sh_count s = 0" by simp_all
  have "shutdown_steps s (s\<lparr>sh_io := Ended, sh_joined := True, sh_dtor := Destroyed\<rparr>)"
    by (rule io_runs [OF io_end], simp_all add: 0(1) [symmetric] 0(2),
        rule dtor_runs [OF dtor_joined], simp_all add: 0(5),
        rule dtor_runs [OF dtor_check], simp_all add: \<open>sh_count s = 0\<close>)
  moreover have "s\<lparr>sh_io := Ended, sh_joined := True, sh_dtor := Destroyed\<rparr> =
      s\<lparr>sh_count := 0, sh_pending := 0, sh_joined := True, sh_dtor := Destroyed, sh_io := Ended\<rparr>"
    using \<open>sh_pending s = 0\<close> \<open>sh_count s = 0\<close> by (cases s) simp
  ultimately show ?case by simp
next
  case (Suc n)
  let ?u = "s\<lparr>sh_pending := n, sh_count := n\<rparr>"
  have p: "sh_pending s = Suc n" "sh_count s = Suc n" using Suc.hyps(2) Suc.prems(5) by simp_all
  have u: "shutdown_steps ?u (?u\<lparr>sh_count := 0, sh_pending := 0, sh_joined := True, sh_dtor := Destroyed, sh_io := Ended\<rparr>)"
    by (rule Suc.hyps(1)) (simp_all add: Suc.prems)
  let ?a = "s\<lparr>sh_pending := n, sh_io := InHandler\<rparr>"
  let ?b = "s\<lparr>sh_pending := n, sh_io := Locked, sh_mutex := Some ByHandler\<rparr>"
  let ?c = "s\<lparr>sh_pending := n, sh_count := n, sh_io := AtUnlock, sh_mutex := Some ByHandler\<rparr>"
  let ?d = "s\<lparr>sh_pending := n, sh_count := n, sh_io := AtAction, sh_mutex := Some ByHandler\<rparr>"
  have 1: "io_step s ?a" using io_call [of s] p Suc.prems by simp
  have 2: "io_step ?a ?b" using io_lock [of ?a] Suc.prems by (cases s) simp
  have 3: "io_step ?b (if n = 0 then ?d else ?c)"
    using io_decrease [of ?b] p by (cases s; cases "n = 0") simp_all
  have 4: "io_step ?d ?c" using io_notify [of ?d] Suc.prems(4) by (cases s) simp
  have 5: "io_step ?c ?u" using io_unlock [of ?c] Suc.prems(1,3) by (cases s) simp
  have "shutdown_steps (if n = 0 then ?d else ?c) ?u"
    using io_runs [OF 4 io_runs [OF 5 rtranclp.rtrancl_refl]] io_runs [OF 5 rtranclp.rtrancl_refl] by (simp only: if_True if_False split: if_split) blast
  then have "shutdown_steps s ?u" by (intro io_runs [OF 1] io_runs [OF 2] io_runs [OF 3])
  from rtranclp_trans [OF this u] show ?case by simp
qed

lemma shutdown_of_simps:
  "cm_reachable host em m \<Longrightarrow> length (cm_pending m) < 2 ^ 32 \<Longrightarrow>
   shutdown_of m = \<lparr>sh_count = length (cm_pending m), sh_pending = length (cm_pending m),
     sh_mutex = None, sh_stopped = False, sh_joined = False, sh_dtor = AtStop, sh_io = InRun\<rparr>"
  using shutdown_inv_init [of host em m] by (simp add: shutdown_inv_def shutdown_of_def running_def)





end
