(* ===== verification/NodeDestruction.thy ===== *)
theory NodeDestruction
  imports ClientLocking ClientShutdown
begin

text \<open>
  The implicit part of \<open>ClientNode::~ClientNode\<close>: its members are destroyed from the
  last to the first (\<open>clientnode.hpp\<close>).  The destructor of the state machine waits for
  handlers (\<open>ClientShutdown\<close>), and the handlers use other members of the node by
  reference (\<open>ClientLocking\<close>); this theory puts the two together.
\<close>

section \<open>Members and their lifetime\<close>

datatype node_member =
    Member_logstreams
  | Member_statemachine
  | Member_machine_mutex
  | Member_signals
  | Member_last_msg_id
  | Member_rcvMessageConnection

text \<open>In the order of their declarations.\<close>

definition node_members :: "node_member list" where
  "node_members = [Member_logstreams, Member_statemachine, Member_machine_mutex, Member_signals,
     Member_last_msg_id, Member_rcvMessageConnection]"

text \<open>The members whose lifetime has ended when the destructor of \<open>x\<close> runs.\<close>

definition destroyed_before :: "node_member \<Rightarrow> node_member list" where
  "destroyed_before x = takeWhile (\<lambda>y. y \<noteq> x) (rev node_members)"

section \<open>What the handlers use\<close>

text \<open>
  The members a handler uses: the machine, the mutex if it locks it, and the
  signals if it calls them itself, as only \<open>writeHandler\<close> does.
\<close>

definition handler_members :: "endianness \<Rightarrow> async_op \<Rightarrow> completion \<Rightarrow> bool \<Rightarrow> node_member list" where
  "handler_members host op c u =
     Member_statemachine #
     (if Acquire \<in> set (handler_accesses host op c u) then [Member_machine_mutex] else []) @
     (case op of OpWrite data \<Rightarrow> [Member_signals] | _ \<Rightarrow> [])"

text \<open>The completion of an operation that is cancelled because its socket is closed.\<close>

fun cancelled :: "async_op \<Rightarrow> completion" where
  "cancelled (OpResolve h s) = ResolveDone OperationAborted []"
| "cancelled (OpConnect eps) = ConnectDone OperationAborted"
| "cancelled OpReadHeader = ReadDone OperationAborted 0 (replicate segm_header_length 0)"
| "cancelled (OpReadBody k) = ReadDone OperationAborted 0 (replicate k 0)"
| "cancelled (OpWrite data) = WriteDone OperationAborted 0"

lemma completes_cancelled: "completes op (cancelled op)"
  by (cases op) simp_all

lemma destroyed_before_machine:
  "set (destroyed_before Member_statemachine) =
     {Member_machine_mutex, Member_signals, Member_last_msg_id, Member_rcvMessageConnection}"
  by (auto simp: destroyed_before_def node_members_def)

text \<open>A handler that is inside the machine has locked the mutex.\<close>

lemma inside_is_locked:
  "Enter Machine \<in> set (handler_accesses host op c u) \<longleftrightarrow> Acquire \<in> set (handler_accesses host op c u)"
  using handler_accesses_cases [of host op c u] by (auto simp: access_defs)

lemma cancelled_locks:
  "Acquire \<in> set (handler_accesses host op (cancelled op) u) \<longleftrightarrow>
     (\<exists>k. op = OpReadBody k) \<or> (\<exists>data. op = OpWrite data)"
  by (cases op) (auto simp: handler_access_defs access_defs)

text \<open>The thread of the service calls handlers while the destructor of the machine joins it.\<close>

lemma handler_during_join:
  assumes "cm_reachable host em m" and "length (cm_pending m) < 2 ^ 32" and "cm_pending m \<noteq> []"
  shows "\<exists>s. shutdown_steps (shutdown_of m) s \<and> sh_io s = InHandler \<and> sh_dtor s = AtJoin"
proof -
  let ?n = "length (cm_pending m)"
  let ?s = "\<lambda>d stop. \<lparr>sh_count = ?n, sh_pending = ?n, sh_mutex = None, sh_stopped = stop, sh_joined = False,
      sh_dtor = d, sh_io = InRun\<rparr>"
  have 1: "dtor_step (?s AtStop False) (?s AtReset True)" using dtor_stop [of "?s AtStop False"] by simp
  have 2: "dtor_step (?s AtReset True) (?s AtJoin False)" using dtor_reset [of "?s AtReset True"] by simp
  have 3: "io_step (?s AtJoin False) ((?s AtJoin False)\<lparr>sh_pending := ?n - 1, sh_io := InHandler\<rparr>)"
    using io_call [of "?s AtJoin False"] assms(3) by simp
  have "shutdown_steps (shutdown_of m) ((?s AtJoin False)\<lparr>sh_pending := ?n - 1, sh_io := InHandler\<rparr>)"
    unfolding shutdown_of_simps [OF assms(1,2)]
    by (rule dtor_runs [OF 1 dtor_runs [OF 2 io_runs [OF 3 rtranclp.rtrancl_refl]]])
  then show ?thesis by (intro exI conjI) (assumption, simp_all)
qed



end
