(* ===== verification/ConnectedClient.thy ===== *)
theory ConnectedClient
  imports Framing
begin

text \<open>
  \<open>include/servnode/connected-client.hpp\<close> and
  \<open>src/servnode/connected-client.cpp\<close>: a client connected to the server node.
  The handlers hold a \<open>weak_ptr\<close> to the object: it is alive as long as its
  owner holds a \<open>shared_ptr\<close> (\<open>cc_owners\<close>), and a handler that finds it dead
  does nothing.  The two callbacks of the owner are a parameter.
\<close>

section \<open>State and operations\<close>

datatype cc_signal =
    ReceivedMessage int serialized_data
  | Disconnected int

datatype cc_op =
    CCReadHeader
  | CCReadBody nat
  | CCWrite "byte list"

text \<open>
  \<open>cc_signals\<close> lists the invocations of the callbacks; \<open>header_buffer\<close> is
  shared with the handlers and outlives the object with them.
\<close>

record connected_client =
  cc_connection_id :: int
  cc_owners :: nat
  cc_header_buffer :: "byte list"
  cc_shut_down :: bool
  cc_pending :: "cc_op list"
  cc_signals :: "cc_signal list"

type_synonym cc_callback = "cc_signal \<Rightarrow> connected_client \<Rightarrow> connected_client result"

definition cc_emit :: "cc_callback \<Rightarrow> cc_signal \<Rightarrow> connected_client \<Rightarrow> connected_client result" where
  "cc_emit cb sig cc = cb sig (cc\<lparr>cc_signals := cc_signals cc @ [sig]\<rparr>)"

definition cc_start :: "cc_op \<Rightarrow> connected_client \<Rightarrow> connected_client" where
  "cc_start op cc = cc\<lparr>cc_pending := cc_pending cc @ [op]\<rparr>"

definition cc_ctor :: "int \<Rightarrow> connected_client" where
  "cc_ctor connection_id =
     \<lparr>cc_connection_id = connection_id, cc_owners = 1,
      cc_header_buffer = replicate segm_header_length 0, cc_shut_down = False,
      cc_pending = [], cc_signals = []\<rparr>"

definition cc_startReceive :: "connected_client \<Rightarrow> connected_client" where
  "cc_startReceive cc = cc_start CCReadHeader cc"

definition cc_makeInstance :: "int \<Rightarrow> connected_client" where
  "cc_makeInstance connection_id = cc_startReceive (cc_ctor connection_id)"

definition cc_async_write :: "byte list \<Rightarrow> connected_client \<Rightarrow> connected_client" where
  "cc_async_write data cc = cc_start (CCWrite data) cc"

definition cc_sendPacket ::
  "('m \<Rightarrow> nat) \<Rightarrow> ('m \<Rightarrow> iter \<Rightarrow> iter result) \<Rightarrow> 'm \<Rightarrow> connected_client \<Rightarrow> connected_client result" where
  "cc_sendPacket packet_size packet_fill packet cc =
     rbind (serialize packet_size packet_fill packet) (\<lambda>data. Inr (cc_async_write data cc))"

text \<open>The overload for a packet that is moved from: it is kept in a packet of its own, and sent.\<close>

definition cc_sendPacket_move ::
  "('m \<Rightarrow> nat) \<Rightarrow> ('m \<Rightarrow> iter \<Rightarrow> iter result) \<Rightarrow> 'm \<Rightarrow> connected_client \<Rightarrow> connected_client result" where
  "cc_sendPacket_move packet_size packet_fill packet cc =
     (let data = packet in cc_sendPacket packet_size packet_fill data cc)"

text \<open>The two instances of the template: packets of raw data and of user messages.\<close>

definition cc_sendPacket_data :: "endianness \<Rightarrow> serialized_data \<Rightarrow> connected_client \<Rightarrow> connected_client result" where
  "cc_sendPacket_data host =
     cc_sendPacket (segm_size sd_size) (segm_fillSerialized host sd_size sd_fillSerialized)"

definition cc_sendPacket_message :: "endianness \<Rightarrow> near_user_message \<Rightarrow> connected_client \<Rightarrow> connected_client result" where
  "cc_sendPacket_message host =
     cc_sendPacket (segm_size num_size) (segm_fillSerialized host num_size (num_fillSerialized host))"

definition cc_shutdown :: "connected_client \<Rightarrow> connected_client" where
  "cc_shutdown cc = cc\<lparr>cc_shut_down := True\<rparr>"

section \<open>Handlers\<close>

text \<open>\<open>parent.lock()\<close> fails when no owner is left.\<close>

definition locked :: "(connected_client \<Rightarrow> connected_client result) \<Rightarrow> connected_client \<Rightarrow> connected_client result" where
  "locked f cc = (if cc_owners cc = 0 then Inr cc else f cc)"

definition cc_disconnect :: "cc_callback \<Rightarrow> connected_client \<Rightarrow> connected_client result" where
  "cc_disconnect cb cc = cc_emit cb (Disconnected (cc_connection_id cc)) (cc_shutdown cc)"

definition SendHandler ::
  "cc_callback \<Rightarrow> error_code \<Rightarrow> nat \<Rightarrow> byte list \<Rightarrow> connected_client \<Rightarrow> connected_client result" where
  "SendHandler cb error bytes_transferred buffer =
     locked (\<lambda>cc. if error \<noteq> Success \<or> bytes_transferred \<noteq> length buffer
                  then cc_disconnect cb cc else Inr cc)"

text \<open>Only \<open>MsgLayerError\<close> and what derives from it is caught.\<close>

definition ReceiveHeaderHandler ::
  "endianness \<Rightarrow> cc_callback \<Rightarrow> error_code \<Rightarrow> nat \<Rightarrow> connected_client \<Rightarrow> connected_client result" where
  "ReceiveHeaderHandler host cb error bytes_transferred =
     locked (\<lambda>cc.
       if error \<noteq> Success then cc_disconnect cb cc
       else case body_buffer host (MsgLayerError ''Oversized packet.'') (cc_header_buffer cc) of
         Inr body_buf \<Rightarrow> Inr (cc_start (CCReadBody (length body_buf)) cc)
       | Inl (Throw e) \<Rightarrow> if caught_as_MsgLayerError e then cc_disconnect cb cc else Inl (Throw e)
       | Inl (Undefined u) \<Rightarrow> Inl (Undefined u))"

definition ReceiveBodyHandler ::
  "cc_callback \<Rightarrow> error_code \<Rightarrow> nat \<Rightarrow> byte list \<Rightarrow> connected_client \<Rightarrow> connected_client result" where
  "ReceiveBodyHandler cb error bytes_transferred buffer =
     locked (\<lambda>cc.
       if error \<noteq> Success then cc_disconnect cb cc
       else rbind (cc_emit cb (ReceivedMessage (cc_connection_id cc) (sd_of_block buffer)) cc)
              (\<lambda>cc. Inr (cc_startReceive cc)))"

lemmas connected_client_handler_defs [handler_defs] =
  SendHandler_def ReceiveHeaderHandler_def ReceiveBodyHandler_def

section \<open>Completions and steps\<close>

primrec cc_delivers :: "cc_op \<Rightarrow> error_code \<Rightarrow> nat \<Rightarrow> byte list \<Rightarrow> bool" where
  "cc_delivers CCReadHeader err n data =
     (length data = segm_header_length \<and> (err = Success \<longrightarrow> n = segm_header_length))"
| "cc_delivers (CCReadBody k) err n data = (length data = k \<and> (err = Success \<longrightarrow> n = k))"
| "cc_delivers (CCWrite buf) err n data = (data = [] \<and> (err = Success \<longrightarrow> n = length buf))"

text \<open>\<open>data\<close> is what the buffer of the read holds when its handler runs.\<close>

definition cc_complete ::
  "endianness \<Rightarrow> cc_callback \<Rightarrow> nat \<Rightarrow> error_code \<Rightarrow> nat \<Rightarrow> byte list \<Rightarrow> connected_client
     \<Rightarrow> connected_client result" where
  "cc_complete host cb k err n data cc =
     (let cc' = cc\<lparr>cc_pending := take k (cc_pending cc) @ drop (Suc k) (cc_pending cc)\<rparr> in
      case cc_pending cc ! k of
        CCReadHeader \<Rightarrow> ReceiveHeaderHandler host cb err n (cc'\<lparr>cc_header_buffer := data\<rparr>)
      | CCReadBody m \<Rightarrow> ReceiveBodyHandler cb err n data cc'
      | CCWrite buf \<Rightarrow> SendHandler cb err n buf cc')"

text \<open>What the owner does between handlers.\<close>

inductive cc_step :: "endianness \<Rightarrow> cc_callback \<Rightarrow> connected_client \<Rightarrow> connected_client \<Rightarrow> bool"
  for host cb where
  complete: "k < length (cc_pending cc) \<Longrightarrow> cc_delivers (cc_pending cc ! k) err n data \<Longrightarrow>
    cc_complete host cb k err n data cc = Inr cc' \<Longrightarrow> cc_step host cb cc cc'"
| copy: "0 < cc_owners cc \<Longrightarrow> cc_step host cb cc (cc\<lparr>cc_owners := Suc (cc_owners cc)\<rparr>)"
| drop: "0 < cc_owners cc \<Longrightarrow> cc_step host cb cc (cc\<lparr>cc_owners := cc_owners cc - 1\<rparr>)"
| send: "0 < cc_owners cc \<Longrightarrow> cc_sendPacket_message host msg cc = Inr cc' \<Longrightarrow> cc_step host cb cc cc'"
| relay: "0 < cc_owners cc \<Longrightarrow> cc_sendPacket_data host data cc = Inr cc' \<Longrightarrow> cc_step host cb cc cc'"
| shut: "0 < cc_owners cc \<Longrightarrow> cc_step host cb cc (cc_shutdown cc)"

inductive cc_reachable :: "endianness \<Rightarrow> cc_callback \<Rightarrow> connected_client \<Rightarrow> bool"
  for host cb where
  start: "cc_reachable host cb (cc_makeInstance i)"
| step: "cc_reachable host cb cc \<Longrightarrow> cc_step host cb cc cc' \<Longrightarrow> cc_reachable host cb cc'"

inductive_cases cc_stepE: "cc_step host cb cc cc'"

section \<open>The callbacks\<close>

text \<open>
  A callback may send packets, shut the connection down and give up or copy
  the owner's pointers.  It cannot start reads, reach the header buffer or
  run callbacks.
\<close>

definition cc_is_read :: "cc_op \<Rightarrow> bool" where
  "cc_is_read op = (case op of CCWrite data \<Rightarrow> False | _ \<Rightarrow> True)"

definition callback_respects :: "cc_callback \<Rightarrow> bool" where
  "callback_respects cb \<longleftrightarrow> (\<forall>sig cc cc'. cb sig cc = Inr cc' \<longrightarrow>
     filter cc_is_read (cc_pending cc') = filter cc_is_read (cc_pending cc) \<and>
     cc_signals cc' = cc_signals cc \<and> cc_header_buffer cc' = cc_header_buffer cc \<and>
     cc_connection_id cc' = cc_connection_id cc)"

text \<open>An owner that drops its pointer when the client has disconnected.\<close>

definition dropping_owner :: cc_callback where
  "dropping_owner sig cc =
     (case sig of Disconnected i \<Rightarrow> Inr (cc\<lparr>cc_owners := cc_owners cc - 1\<rparr>)
      | ReceivedMessage i data \<Rightarrow> Inr cc)"

text \<open>A client that was released while its first read was pending.\<close>

definition released_client :: connected_client where
  "released_client = (cc_makeInstance 7)\<lparr>cc_owners := 0\<rparr>"

lemma dropping_owner_respects: "callback_respects dropping_owner"
  by (auto simp: callback_respects_def dropping_owner_def split: cc_signal.splits)

section \<open>Invariant\<close>

definition cc_inv :: "connected_client \<Rightarrow> bool" where
  "cc_inv cc \<longleftrightarrow> length (filter cc_is_read (cc_pending cc)) \<le> 1 \<and>
     length (cc_header_buffer cc) = segm_header_length"

text \<open>The invariant with room for one more read.\<close>

definition cc_idle :: "connected_client \<Rightarrow> bool" where
  "cc_idle cc \<longleftrightarrow> filter cc_is_read (cc_pending cc) = [] \<and>
     length (cc_header_buffer cc) = segm_header_length"

lemma cc_is_read_simps [simp]:
  "cc_is_read CCReadHeader" "cc_is_read (CCReadBody n)" "\<not> cc_is_read (CCWrite buf)"
  by (simp_all add: cc_is_read_def)

lemma cc_idle_inv: "cc_idle cc \<Longrightarrow> cc_inv cc"
  by (simp add: cc_idle_def cc_inv_def)

lemma cc_idle_start: "cc_idle cc \<Longrightarrow> cc_inv (cc_start op cc)"
  by (simp add: cc_idle_def cc_inv_def cc_start_def)

lemma cc_emit_keeps:
  assumes "callback_respects cb" and "cc_emit cb sig cc = Inr cc'"
  shows "filter cc_is_read (cc_pending cc') = filter cc_is_read (cc_pending cc)"
    and "cc_header_buffer cc' = cc_header_buffer cc"
  using assms by (fastforce simp: callback_respects_def cc_emit_def)+

lemma cc_disconnect_keeps:
  assumes "callback_respects cb" and "cc_disconnect cb cc = Inr cc'"
  shows "cc_inv cc \<Longrightarrow> cc_inv cc'" and "cc_idle cc \<Longrightarrow> cc_idle cc'"
  using cc_emit_keeps [OF assms(1) assms(2) [unfolded cc_disconnect_def]]
  by (simp_all add: cc_inv_def cc_idle_def cc_shutdown_def)

lemma cc_take_read:
  assumes "cc_inv cc" and "k < length (cc_pending cc)"
  shows "cc_is_read (cc_pending cc ! k) \<Longrightarrow>
      filter cc_is_read (take k (cc_pending cc) @ drop (Suc k) (cc_pending cc)) = []"
    and "length (filter cc_is_read (take k (cc_pending cc) @ drop (Suc k) (cc_pending cc))) \<le> 1"
proof -
  have "cc_pending cc = take k (cc_pending cc) @ cc_pending cc ! k # drop (Suc k) (cc_pending cc)"
    by (rule id_take_nth_drop [OF assms(2)])
  then have "length (filter cc_is_read (cc_pending cc)) =
      length (filter cc_is_read (take k (cc_pending cc) @ cc_pending cc ! k # drop (Suc k) (cc_pending cc)))"
    by (rule arg_cong)
  with assms(1) show "cc_is_read (cc_pending cc ! k) \<Longrightarrow>
      filter cc_is_read (take k (cc_pending cc) @ drop (Suc k) (cc_pending cc)) = []"
    and "length (filter cc_is_read (take k (cc_pending cc) @ drop (Suc k) (cc_pending cc))) \<le> 1"
    by (auto simp: cc_inv_def split: if_splits)
qed

lemma ReceiveHeaderHandler_Inr:
  assumes "ReceiveHeaderHandler host cb err n c = Inr c'"
  shows "c' = c \<or> cc_disconnect cb c = Inr c' \<or> (\<exists>m. c' = cc_start (CCReadBody m) c)"
proof (cases "cc_owners c = 0 \<or> err \<noteq> Success")
  case True
  with assms show ?thesis by (simp add: ReceiveHeaderHandler_def locked_def split: if_splits)
next
  case False
  show ?thesis
  proof (cases "body_buffer host (MsgLayerError ''Oversized packet.'') (cc_header_buffer c)")
    case (Inl f)
    with assms False show ?thesis
      by (simp add: ReceiveHeaderHandler_def locked_def split: if_splits failure.splits)
  next
    case (Inr buf)
    with assms False have "c' = cc_start (CCReadBody (length buf)) c"
      by (simp add: ReceiveHeaderHandler_def locked_def)
    then show ?thesis by blast
  qed
qed

lemma ReceiveBodyHandler_Inr:
  assumes "ReceiveBodyHandler cb err n data c = Inr c'"
  shows "c' = c \<or> cc_disconnect cb c = Inr c' \<or>
     (\<exists>c1. cc_emit cb (ReceivedMessage (cc_connection_id c) (sd_of_block data)) c = Inr c1 \<and>
        c' = cc_startReceive c1)"
proof (cases "cc_owners c = 0 \<or> err \<noteq> Success")
  case True
  with assms show ?thesis by (simp add: ReceiveBodyHandler_def locked_def split: if_splits)
next
  case False
  with assms show ?thesis by (auto simp: ReceiveBodyHandler_def locked_def rbind_eq_Inr_iff)
qed

lemma SendHandler_Inr:
  "SendHandler cb err n buf c = Inr c' \<Longrightarrow> c' = c \<or> cc_disconnect cb c = Inr c'"
  by (simp add: SendHandler_def locked_def split: if_splits)

lemma cc_complete_inv:
  assumes cb: "callback_respects cb" and inv: "cc_inv cc" and k: "k < length (cc_pending cc)"
    and d: "cc_delivers (cc_pending cc ! k) err n data"
    and res: "cc_complete host cb k err n data cc = Inr cc'"
  shows "cc_inv cc'"
proof -
  let ?cc = "cc\<lparr>cc_pending := take k (cc_pending cc) @ drop (Suc k) (cc_pending cc)\<rparr>"
  note tk = cc_take_read [OF inv k]
  have hdr: "length (cc_header_buffer cc) = segm_header_length" using inv by (simp add: cc_inv_def)
  show ?thesis
  proof (cases "cc_pending cc ! k")
    case CCReadHeader
    let ?c = "?cc\<lparr>cc_header_buffer := data\<rparr>"
    from CCReadHeader tk(1) d have idle: "cc_idle ?c" by (simp add: cc_idle_def)
    from res CCReadHeader have "ReceiveHeaderHandler host cb err n ?c = Inr cc'"
      by (simp add: cc_complete_def)
    then consider (dead) "cc' = ?c" | (failed) "cc_disconnect cb ?c = Inr cc'"
      | (ok) m where "cc' = cc_start (CCReadBody m) ?c"
      using ReceiveHeaderHandler_Inr by blast
    then show ?thesis
    proof cases
      case failed
      from cc_disconnect_keeps(1) [OF cb this cc_idle_inv [OF idle]] show ?thesis .
    qed (simp_all only: cc_idle_inv [OF idle] cc_idle_start [OF idle])
  next
    case (CCReadBody m)
    from CCReadBody tk(1) hdr have idle: "cc_idle ?cc" by (simp add: cc_idle_def)
    from res CCReadBody have "ReceiveBodyHandler cb err n data ?cc = Inr cc'"
      by (simp add: cc_complete_def)
    then consider (dead) "cc' = ?cc" | (failed) "cc_disconnect cb ?cc = Inr cc'"
      | (ok) cc1 where "cc_emit cb (ReceivedMessage (cc_connection_id ?cc) (sd_of_block data)) ?cc = Inr cc1"
          "cc' = cc_startReceive cc1"
      using ReceiveBodyHandler_Inr by blast
    then show ?thesis
    proof cases
      case ok
      from cc_emit_keeps [OF cb ok(1)] idle have "cc_idle cc1" by (simp add: cc_idle_def)
      then show ?thesis by (simp add: ok(2) cc_startReceive_def cc_idle_start)
    next
      case failed
      from cc_disconnect_keeps(1) [OF cb this cc_idle_inv [OF idle]] show ?thesis .
    qed (simp only: cc_idle_inv [OF idle])
  next
    case (CCWrite buf)
    from tk(2) hdr have "cc_inv ?cc" by (simp add: cc_inv_def)
    moreover from res CCWrite have "SendHandler cb err n buf ?cc = Inr cc'"
      by (simp add: cc_complete_def)
    ultimately show ?thesis
      using SendHandler_Inr cc_disconnect_keeps(1) [OF cb] by blast
  qed
qed

lemma cc_sendPacket_inv: "cc_inv cc \<Longrightarrow> cc_sendPacket sz fl p cc = Inr cc' \<Longrightarrow> cc_inv cc'"
  by (auto simp: cc_sendPacket_def rbind_eq_Inr_iff cc_inv_def cc_async_write_def cc_start_def)

lemma cc_step_inv:
  assumes "callback_respects cb" and "cc_step host cb cc cc'" and "cc_inv cc"
  shows "cc_inv cc'"
  using assms(2)
proof (cases rule: cc_step.cases)
  case (complete k err n data)
  show ?thesis by (rule cc_complete_inv [OF assms(1,3) complete])
next
  case (send msg)
  show ?thesis by (rule cc_sendPacket_inv [OF assms(3) send(2) [unfolded cc_sendPacket_message_def]])
next
  case (relay data)
  show ?thesis by (rule cc_sendPacket_inv [OF assms(3) relay(2) [unfolded cc_sendPacket_data_def]])
qed (use assms(3) in \<open>simp_all add: cc_inv_def cc_shutdown_def\<close>)

lemma cc_reachable_inv:
  assumes "callback_respects cb" and "cc_reachable host cb cc"
  shows "cc_inv cc"
  using assms(2)
proof (induction rule: cc_reachable.induct)
  case (start i)
  show ?case
    by (simp add: cc_inv_def cc_makeInstance_def cc_startReceive_def cc_start_def cc_ctor_def)
next
  case (step cc cc')
  then show ?case using cc_step_inv [OF assms(1)] by blast
qed

section \<open>Properties\<close>

text \<open>
  The buffer for headers, which all reads of a client share, is never used
  by two reads at once: in every reachable state at most one read is pending,
  whatever the callbacks do within their rights, and the buffer keeps its size.
\<close>

lemma one_read_per_client:
  assumes "callback_respects cb" and "cc_reachable host cb cc"
  shows "length (filter cc_is_read (cc_pending cc)) \<le> 1 \<and>
     length (cc_header_buffer cc) = segm_header_length"
  using cc_reachable_inv [OF assms] by (simp add: cc_inv_def)

text \<open>
  Once the owner has given up its last pointer no callback is invoked and
  no operation is started: every completion just ends.
\<close>

lemma silent_when_released:
  assumes "cc_owners cc = 0"
  shows "\<exists>cc'. cc_complete host cb k err n data cc = Inr cc' \<and> cc_owners cc' = 0 \<and>
     cc_signals cc' = cc_signals cc \<and>
     cc_pending cc' = take k (cc_pending cc) @ drop (Suc k) (cc_pending cc)"
  using assms
  by (cases "cc_pending cc ! k")
    (simp_all add: cc_complete_def connected_client_handler_defs locked_def)

text \<open>
  What a received header leads to, for a living client: a well-formed one
  of at least its own size and at most \<open>0x8FFF\<close> starts the read of exactly the
  rest of the packet; one that announces less than itself is a
  \<open>std::length_error\<close> that no handler catches; any other shuts the connection
  down and reports it as disconnected.
\<close>

lemma client_header_outcomes:
  fixes cc hdr k
  assumes "0 < cc_owners cc" and "length hdr = 4" and "cc_pending cc ! k = CCReadHeader"
  defines "cc1 \<equiv> cc\<lparr>cc_pending := take k (cc_pending cc) @ drop (Suc k) (cc_pending cc),
                   cc_header_buffer := hdr\<rparr>"
    and "psize \<equiv> unat (word_of_le [hdr ! 1, hdr ! 2] :: uint2b)"
  shows "cc_complete host cb k Success 4 hdr cc =
     (if hdr ! 0 \<noteq> 0x80 \<or> hdr ! 3 \<noteq> 0 \<or> 0x8FFF < psize then cc_disconnect cb cc1
      else if psize < 4 then Inl (Throw LengthError)
      else Inr (cc1\<lparr>cc_pending := cc_pending cc1 @ [CCReadBody (psize - 4)]\<rparr>))"
  using assms(1,3)
  by (simp add: cc_complete_def ReceiveHeaderHandler_def locked_def cc1_def psize_def
      body_buffer_cases [OF assms(2)] Let_def cc_start_def del: word_of_le.simps)

end
