(* ===== verification/ConnectedStream.thy ===== *)
theory ConnectedStream
  imports ConnectedClient
begin

text \<open>
  A client connected to the server node as a reader of the byte stream from the
  network: the third component that provides the contract \<open>packet_reader\<close>, with
  the packets handed to the callback of its owner.
\<close>

section \<open>The pending read\<close>

definition cc_read_size :: "cc_op \<Rightarrow> nat" where
  "cc_read_size op = (case op of CCReadHeader \<Rightarrow> segm_header_length | CCReadBody n \<Rightarrow> n | CCWrite data \<Rightarrow> 0)"

definition cc_want :: "connected_client \<Rightarrow> nat option" where
  "cc_want cc =
     (let k = first_index cc_is_read (cc_pending cc)
      in if k < length (cc_pending cc) then Some (cc_read_size (cc_pending cc ! k)) else None)"

definition cc_arrive :: "endianness \<Rightarrow> cc_callback \<Rightarrow> byte list \<Rightarrow> connected_client \<Rightarrow> connected_client result" where
  "cc_arrive host cb data cc =
     cc_complete host cb (first_index cc_is_read (cc_pending cc)) Success (length data) data cc"

text \<open>
  An owner that stays: its callbacks do not throw, and the one for messages keeps a
  pointer to the client.
\<close>

definition listening :: "cc_callback \<Rightarrow> bool" where
  "listening cb \<longleftrightarrow> callback_respects cb \<and> (\<forall>sig cc. \<exists>cc'. cb sig cc = Inr cc' \<and>
     (\<forall>i data. sig = ReceivedMessage i data \<longrightarrow> 0 < cc_owners cc \<longrightarrow> 0 < cc_owners cc'))"

definition cc_awaiting :: "cc_callback \<Rightarrow> nat \<Rightarrow> connected_client \<Rightarrow> bool" where
  "cc_awaiting cb n cc \<longleftrightarrow>
     listening cb \<and> 0 < cc_owners cc \<and> filter cc_is_read (cc_pending cc) = [CCReadHeader]"

definition cc_consumed :: "byte list \<Rightarrow> connected_client \<Rightarrow> connected_client \<Rightarrow> bool" where
  "cc_consumed p cc cc' \<longleftrightarrow> cc_connection_id cc' = cc_connection_id cc \<and>
     cc_signals cc' = cc_signals cc @ [ReceivedMessage (cc_connection_id cc) (sd_of_block (drop 4 p))]"

definition cc_refused :: "byte list \<Rightarrow> connected_client \<Rightarrow> connected_client result \<Rightarrow> bool" where
  "cc_refused hdr cc r \<longleftrightarrow>
     (if header_verdict hdr = Inl (exn_what LengthError) then r = Inl (Throw LengthError)
      else \<exists>cc'. r = Inr cc' \<and> cc_want cc' = None \<and>
        cc_signals cc' = cc_signals cc @ [Disconnected (cc_connection_id cc)])"

lemma cc_read_size_simps [simp]: "cc_read_size CCReadHeader = 4" "cc_read_size (CCReadBody n) = n"
  by (simp_all add: cc_read_size_def segm_header_length_def)

lemma cc_want_single: "filter cc_is_read (cc_pending cc) = [op] \<Longrightarrow> cc_want cc = Some (cc_read_size op)"
  by (erule filter_single) (simp add: cc_want_def)

lemma cc_want_none: "filter cc_is_read (cc_pending cc) = [] \<Longrightarrow> cc_want cc = None"
  by (simp add: cc_want_def first_index_def filter_empty_conv takeWhile_eq_all_conv [THEN iffD2])

lemma cc_emit_listening:
  assumes "listening cb"
  shows "\<exists>cc'. cc_emit cb sig cc = Inr cc' \<and> filter cc_is_read (cc_pending cc') = filter cc_is_read (cc_pending cc) \<and>
     cc_signals cc' = cc_signals cc @ [sig] \<and> cc_connection_id cc' = cc_connection_id cc \<and>
     (\<forall>i data. sig = ReceivedMessage i data \<longrightarrow> 0 < cc_owners cc \<longrightarrow> 0 < cc_owners cc')"
proof -
  let ?cc = "cc\<lparr>cc_signals := cc_signals cc @ [sig]\<rparr>"
  from assms obtain cc' where cc': "cb sig ?cc = Inr cc'"
      "\<forall>i data. sig = ReceivedMessage i data \<longrightarrow> 0 < cc_owners ?cc \<longrightarrow> 0 < cc_owners cc'"
    unfolding listening_def by blast
  moreover from assms have "callback_respects cb" by (simp add: listening_def)
  ultimately show ?thesis unfolding cc_emit_def callback_respects_def by fastforce
qed

section \<open>Arrivals\<close>

lemma cc_header_outcomes:
  assumes "0 < cc_owners cc" and "length hdr = 4" and p: "cc_pending cc = ys @ CCReadHeader # zs"
    and "first_index cc_is_read (cc_pending cc) = length ys"
  shows "cc_arrive host cb hdr cc =
     (let c = cc\<lparr>cc_pending := ys @ zs, cc_header_buffer := hdr\<rparr>
      in if hdr ! 0 \<noteq> 0x80 \<or> hdr ! 3 \<noteq> 0 \<or> 0x8FFF < packet_length hdr then cc_disconnect cb c
         else if packet_length hdr < 4 then Inl (Throw LengthError)
         else Inr (cc_start (CCReadBody (packet_length hdr - 4)) c))"
proof -
  have h: "cc_pending cc ! length ys = CCReadHeader" by (simp add: p)
  have len: "unat (word_of_le [hdr ! 1, hdr ! 2] :: uint2b) = packet_length hdr"
    unfolding packet_length_def by (rule unat_word_of_le_two)
  show ?thesis
    unfolding cc_arrive_def assms(4) assms(2) client_header_outcomes [OF assms(1,2) h, of host cb, unfolded len]
    by (simp add: p cc_start_def)
qed

lemma cc_header_arrives:
  assumes "cc_awaiting cb n cc" and "length hdr = 4" and "header_verdict hdr = Inr k"
  shows "\<exists>cc'. cc_arrive host cb hdr cc = Inr cc' \<and> 0 < cc_owners cc' \<and>
     filter cc_is_read (cc_pending cc') = [CCReadBody k] \<and>
     cc_signals cc' = cc_signals cc \<and> cc_connection_id cc' = cc_connection_id cc"
proof -
  from assms(1) have o: "0 < cc_owners cc" and rd: "filter cc_is_read (cc_pending cc) = [CCReadHeader]"
    by (simp_all add: cc_awaiting_def)
  from rd obtain ys zs where p: "cc_pending cc = ys @ CCReadHeader # zs"
      "first_index cc_is_read (cc_pending cc) = length ys" "filter cc_is_read ys = []" "filter cc_is_read zs = []"
    by (rule filter_single) blast
  show ?thesis
    using cc_header_outcomes [OF o assms(2) p(1,2), of host cb] header_verdict_Inr [OF assms(2,3)] o p(3,4)
    by (simp add: cc_start_def)
qed

lemma cc_body_arrives:
  assumes "listening cb" and "0 < cc_owners cc" and "filter cc_is_read (cc_pending cc) = [CCReadBody (length body)]"
  shows "\<exists>cc'. cc_arrive host cb body cc = Inr cc' \<and> cc_awaiting cb n cc' \<and>
     cc_connection_id cc' = cc_connection_id cc \<and>
     cc_signals cc' = cc_signals cc @ [ReceivedMessage (cc_connection_id cc) (sd_of_block body)]"
proof -
  from assms(3) obtain ys zs where p: "cc_pending cc = ys @ CCReadBody (length body) # zs"
      "first_index cc_is_read (cc_pending cc) = length ys" "filter cc_is_read ys = []" "filter cc_is_read zs = []"
    by (rule filter_single) blast
  from cc_emit_listening [OF assms(1), of "ReceivedMessage (cc_connection_id cc) (sd_of_block body)"
      "cc\<lparr>cc_pending := ys @ zs\<rparr>"] assms(2) p(3,4)
  obtain cc1 where cc1: "cc_emit cb (ReceivedMessage (cc_connection_id cc) (sd_of_block body)) (cc\<lparr>cc_pending := ys @ zs\<rparr>) = Inr cc1"
      "filter cc_is_read (cc_pending cc1) = []" "cc_connection_id cc1 = cc_connection_id cc" "0 < cc_owners cc1"
      "cc_signals cc1 = cc_signals cc @ [ReceivedMessage (cc_connection_id cc) (sd_of_block body)]"
    by auto
  then have "cc_arrive host cb body cc = Inr (cc_startReceive cc1)"
    using assms(2) p(2) by (simp add: cc_arrive_def cc_complete_def p(1) ReceiveBodyHandler_def locked_def)
  with cc1 assms(1) show ?thesis by (simp add: cc_awaiting_def cc_startReceive_def cc_start_def)
qed

lemma cc_header_refused:
  assumes "cc_awaiting cb n cc" and "length hdr = 4" and "header_verdict hdr = Inl why"
  shows "cc_refused hdr cc (cc_arrive host cb hdr cc)"
proof -
  from assms(1) have l: "listening cb" and o: "0 < cc_owners cc"
      and rd: "filter cc_is_read (cc_pending cc) = [CCReadHeader]"
    by (simp_all add: cc_awaiting_def)
  from rd obtain ys zs where p: "cc_pending cc = ys @ CCReadHeader # zs"
      "first_index cc_is_read (cc_pending cc) = length ys" "filter cc_is_read ys = []" "filter cc_is_read zs = []"
    by (rule filter_single) blast
  let ?c = "cc\<lparr>cc_pending := ys @ zs, cc_header_buffer := hdr\<rparr>"
  have run: "cc_arrive host cb hdr cc =
      (if header_verdict hdr = Inl (exn_what LengthError) then Inl (Throw LengthError) else cc_disconnect cb ?c)"
    using cc_header_outcomes [OF o assms(2) p(1,2), of host cb] assms(2,3)
    by (auto simp: header_verdict_cases split: if_splits)
  from cc_emit_listening [OF l, of "Disconnected (cc_connection_id ?c)" "cc_shutdown ?c"] p(3,4)
  obtain cc' where cc': "cc_disconnect cb ?c = Inr cc'" "filter cc_is_read (cc_pending cc') = []"
      "cc_signals cc' = cc_signals cc @ [Disconnected (cc_connection_id cc)]"
    by (auto simp: cc_disconnect_def cc_shutdown_def)
  then show ?thesis by (simp add: cc_refused_def run cc_want_none)
qed

interpretation cc_reader: packet_reader cc_want "cc_arrive host cb" "cc_awaiting cb" "\<lambda>_. True" cc_consumed cc_refused
  for host cb
proof unfold_locales
  fix n cc
  assume "cc_awaiting cb n cc"
  then show "cc_want cc = Some 4" using cc_want_single [of cc CCReadHeader] by (simp add: cc_awaiting_def)
next
  fix n cc hdr k
  assume "cc_awaiting cb n cc" "length hdr = 4" "header_verdict hdr = Inr k"
  from cc_header_arrives [OF this, of host] show "\<exists>s1. cc_arrive host cb hdr cc = Inr s1 \<and> cc_want s1 = Some k"
    using cc_want_single by fastforce
next
  fix n cc hdr s1 and body :: "byte list"
  assume a: "cc_awaiting cb (Suc n) cc" "length hdr = 4" "header_verdict hdr = Inr (length body)"
    "cc_arrive host cb hdr cc = Inr s1"
  from cc_header_arrives [OF a(1-3), of host] a(4) have s1: "0 < cc_owners s1"
      "filter cc_is_read (cc_pending s1) = [CCReadBody (length body)]"
      "cc_signals s1 = cc_signals cc" "cc_connection_id s1 = cc_connection_id cc"
    by auto
  from a(1) have "listening cb" by (simp add: cc_awaiting_def)
  from cc_body_arrives [OF this s1(1,2), of host n] s1(3,4) a(2)
  show "\<exists>s2. cc_arrive host cb body s1 = Inr s2 \<and> cc_awaiting cb n s2 \<and> cc_consumed (hdr @ body) cc s2"
    by (auto simp: cc_consumed_def)
next
  fix n cc hdr why
  assume "cc_awaiting cb n cc" "length hdr = 4" "header_verdict hdr = Inl why"
  then show "cc_refused hdr cc (cc_arrive host cb hdr cc)" by (rule cc_header_refused)
qed

section \<open>Streams\<close>

definition cc_messages :: "int \<Rightarrow> byte list list \<Rightarrow> cc_signal list" where
  "cc_messages i ps = map (\<lambda>p. ReceivedMessage i (sd_of_block (drop 4 p))) ps"

lemma cc_chain:
  "chain cc_consumed ps cc cc' \<Longrightarrow>
   cc_signals cc' = cc_signals cc @ cc_messages (cc_connection_id cc) ps \<and> cc_connection_id cc' = cc_connection_id cc"
proof (induction ps arbitrary: cc)
  case Nil
  then show ?case by (simp add: cc_messages_def)
next
  case (Cons p ps)
  then obtain u where u: "cc_consumed p cc u" "chain cc_consumed ps u cc'" by auto
  with Cons.IH [OF u(2)] show ?case by (simp add: cc_consumed_def cc_messages_def)
qed

text \<open>
  C34. A client connected to the server node finds in any byte stream exactly the
  packets the reference parser finds, and hands the data of each, in order and
  with its own identifier, to an owner that stays.  The first header the parser
  refuses is reported as a disconnection and nothing more is read; but one
  that announces less than itself is an exception that nothing catches.
\<close>

theorem connected_client_reads_stream:
  assumes "cc_awaiting cb 0 cc"
  shows "case snd (frames bs) of
       Incomplete r \<Rightarrow> (\<exists>cc' rest. feeds cc_want (cc_arrive host cb) bs cc (Inr cc') rest \<and>
         cc_signals cc' = cc_signals cc @ cc_messages (cc_connection_id cc) (fst (frames bs)))
     | Refused why r \<Rightarrow>
         if why = exn_what LengthError
         then feeds cc_want (cc_arrive host cb) bs cc (Inl (Throw LengthError)) (drop 4 r)
         else \<exists>cc'. feeds cc_want (cc_arrive host cb) bs cc (Inr cc') (drop 4 r) \<and> cc_want cc' = None \<and>
           cc_signals cc' = cc_signals cc @ cc_messages (cc_connection_id cc) (fst (frames bs)) @
             [Disconnected (cc_connection_id cc)]"
proof -
  have any: "list_all (\<lambda>_. True) (fst (frames bs))" by (simp add: list_all_iff)
  have "cc_awaiting cb (length (fst (frames bs))) cc" using assms by (simp add: cc_awaiting_def)
  from cc_reader.stream_feeds [OF this any, of host] obtain t where
      t: "chain cc_consumed (fst (frames bs)) cc t" "cc_awaiting cb 0 t" and
      e: "case snd (frames bs) of
        Incomplete r \<Rightarrow>
          if length r < 4 then feeds cc_want (cc_arrive host cb) bs cc (Inr t) r
          else \<exists>t1. cc_arrive host cb (take 4 r) t = Inr t1 \<and>
            feeds cc_want (cc_arrive host cb) bs cc (Inr t1) (drop 4 r)
      | Refused why r \<Rightarrow> cc_refused (take 4 r) t (cc_arrive host cb (take 4 r) t) \<and>
          (\<forall>t1 res rest. cc_arrive host cb (take 4 r) t = Inr t1 \<longrightarrow>
             feeds cc_want (cc_arrive host cb) (drop 4 r) t1 res rest \<longrightarrow>
             feeds cc_want (cc_arrive host cb) bs cc res rest) \<and>
          (\<forall>f. cc_arrive host cb (take 4 r) t = Inl f \<longrightarrow>
             feeds cc_want (cc_arrive host cb) bs cc (Inl f) (drop 4 r))"
    by blast
  note ch = cc_chain [OF t(1)]
  show ?thesis
  proof (cases "snd (frames bs)")
    case (Incomplete r)
    show ?thesis
    proof (cases "length r < 4")
      case True
      with e Incomplete ch show ?thesis by auto
    next
      case False
      with e Incomplete obtain t1 where t1: "cc_arrive host cb (take 4 r) t = Inr t1"
          "feeds cc_want (cc_arrive host cb) bs cc (Inr t1) (drop 4 r)" by auto
      from frames_end [of bs] Incomplete False obtain k where "header_verdict (take 4 r) = Inr k" by auto
      with cc_header_arrives [OF t(2), of "take 4 r" _ host] False t1(1) have "cc_signals t1 = cc_signals t" by auto
      with t1 ch Incomplete show ?thesis by auto
    qed
  next
    case (Refused why r)
    from frames_end [of bs] Refused have v: "header_verdict (take 4 r) = Inl why" by simp
    show ?thesis
    proof (cases "why = exn_what LengthError")
      case True
      with e Refused v show ?thesis by (simp add: cc_refused_def)
    next
      case False
      with e Refused v obtain t1 where t1: "cc_arrive host cb (take 4 r) t = Inr t1" "cc_want t1 = None"
          "cc_signals t1 = cc_signals t @ [Disconnected (cc_connection_id t)]"
        by (auto simp: cc_refused_def)
      have "feeds cc_want (cc_arrive host cb) (drop 4 r) t1 (Inr t1) (drop 4 r)"
        by (rule feeds_stop) (simp add: t1(2))
      with e Refused t1(1) have "feeds cc_want (cc_arrive host cb) bs cc (Inr t1) (drop 4 r)" by auto
      with t1 ch Refused False show ?thesis by auto
    qed
  qed
qed

lemma dropping_owner_listens: "listening dropping_owner"
  using dropping_owner_respects by (auto simp: listening_def dropping_owner_def split: cc_signal.splits)

lemma connected_client_reads_stream_witness:
  "\<exists>cc'. feeds cc_want (cc_arrive LittleEndian dropping_owner) [0x80, 5, 0, 0, 9, 0x81, 0, 0, 0, 1]
       (cc_makeInstance 7) (Inr cc') [1] \<and>
     cc_signals cc' = [ReceivedMessage 7 (sd_of_block [9]), Disconnected 7]"
proof -
  have "header_verdict [0x80, 5, 0, 0] = Inr 1" "header_verdict [0x81, 0, 0, 0] = Inl ''Invalid packet header''"
    by (simp_all add: header_verdict_cases packet_length_def)
  then have fr: "frames [0x80, 5, 0, 0, 9, 0x81, 0, 0, 0, 1] =
      ([[0x80, 5, 0, 0, 9]], Refused ''Invalid packet header'' [0x81, 0, 0, 0, 1])"
    by (simp add: frames.simps)
  have "cc_awaiting dropping_owner 0 (cc_makeInstance 7)"
    by (simp add: cc_awaiting_def dropping_owner_listens cc_makeInstance_def cc_startReceive_def cc_start_def cc_ctor_def)
  from connected_client_reads_stream [OF this, of LittleEndian "[0x80, 5, 0, 0, 9, 0x81, 0, 0, 0, 1]"]
  show ?thesis
    by (simp add: fr cc_messages_def cc_makeInstance_def cc_startReceive_def cc_start_def cc_ctor_def) blast
qed

end
