(* ===== verification/TestSuite.thy ===== *)
theory TestSuite
  imports ConnectedStream
begin

text \<open>
  The tests of the repository (\<open>src/test\<close>) as functions of the byte order of the
  host and of their data, which the programs fix: \<open>testutils.hpp\<close>, the tests of
  \<open>common\<close>, and the test of \<open>ConnectedClient\<close>, an owner that answers a message
  and then shuts the connection down.  Left out is what the tests print.
\<close>

section \<open>testutils.hpp\<close>

text \<open>The singleton of a test program; \<open>failed_lines\<close> are the lines of the assertions it reported.\<close>

record test_module =
  testname :: string
  teststate :: int
  failed_lines :: "nat list"

definition DECLARE_TEST :: "string \<Rightarrow> test_module" where
  "DECLARE_TEST name = \<lparr>testname = name, teststate = 0, failed_lines = []\<rparr>"

definition failed_assert :: "nat \<Rightarrow> test_module \<Rightarrow> test_module" where
  "failed_assert line t =
     t\<lparr>teststate := (if teststate t = 0 then 1 else teststate t), failed_lines := failed_lines t @ [line]\<rparr>"

definition TEST_ASSERT :: "nat \<Rightarrow> bool \<Rightarrow> test_module \<Rightarrow> test_module" where
  "TEST_ASSERT line expr t = (if \<not> expr then failed_assert line t else t)"

definition conclude_test :: "test_module \<Rightarrow> int" where
  "conclude_test t = teststate t"

text \<open>A run of assertions, each with its line.\<close>

definition asserts :: "(nat \<times> bool) list \<Rightarrow> test_module \<Rightarrow> test_module" where
  "asserts = fold (\<lambda>(line, expr). TEST_ASSERT line expr)"

lemma asserts_simps [simp]:
  "asserts [] t = t" "asserts ((line, True) # as) t = asserts as t"
  by (simp_all add: asserts_def TEST_ASSERT_def)

lemma asserts_hold: "list_all snd as \<Longrightarrow> asserts as t = t"
  by (induction as) (auto simp: asserts_def TEST_ASSERT_def)

text \<open>A program passes exactly if no assertion failed.\<close>

lemma conclude_asserts: "conclude_test (asserts as (DECLARE_TEST name)) = 0 \<longleftrightarrow> list_all snd as"
proof -
  have "teststate (asserts as t) = (if teststate t \<noteq> 0 then teststate t else if list_all snd as then 0 else 1)" for t
  proof (induction as arbitrary: t)
    case (Cons a as)
    have "asserts (a # as) t = asserts as (TEST_ASSERT (fst a) (snd a) t)" by (simp add: asserts_def case_prod_beta)
    then show ?case by (simp add: Cons.IH) (simp add: TEST_ASSERT_def failed_assert_def)
  qed (simp add: asserts_def)
  then show ?thesis by (simp add: conclude_test_def DECLARE_TEST_def)
qed

section \<open>The tests of common\<close>

text \<open>
  \<open>test_byteorder.cpp\<close>.  The host is the macro \<open>NUKE_MS_BIG_ENDIAN\<close>.  An \<open>int4b_t\<close> is
  compared with an unsigned literal, and therefore as unsigned.
\<close>

definition test_byteorder :: "endianness \<Rightarrow> test_module" where
  "test_byteorder host =
     (let ulong = 0x1A2B3C4D; ulong_reverse = reversebytes_uint4b ulong;
          ulong_to_netbo = netbo_uint4b host ulong;
          slong = - 0x0708090A; slong_reverse = reversebytes_int4b slong;
          slong_to_netbo = to_netbo host reversebytes_int4b slong;
          ushort = 0x1122; ushort_reverse = reversebytes_uint2b ushort;
          ushort_to_netbo = netbo_uint2b host ushort;
          sshort = - 0x1020; sshort_reverse = reversebytes_int2b sshort;
          sshort_to_netbo = to_netbo host reversebytes_int2b sshort
      in asserts
        [(30, ulong_reverse = 0x4D3C2B1A),
         (if host = BigEndian then (32, ulong_to_netbo = 0x4D3C2B1A) else (34, ulong_to_netbo = 0x1A2B3C4D)),
         (46, (word_of_int slong_reverse :: uint4b) = 0xF6F6F7F8),
         (if host = BigEndian then (48, (word_of_int slong_to_netbo :: uint4b) = 0xF6F6F7F8)
          else (50, (word_of_int slong_to_netbo :: uint4b) = 0xF8F7F6F6)),
         (63, ushort_reverse = 0x2211),
         (if host = BigEndian then (65, ushort_to_netbo = 0x2211) else (67, ushort_to_netbo = 0x1122)),
         (79, sshort_reverse = sint (0xE0EF :: uint2b)),
         (if host = BigEndian then (81, sshort_to_netbo = sint (0xE0EF :: uint2b))
          else (83, sshort_to_netbo = sint (0xEFE0 :: uint2b)))]
        (DECLARE_TEST ''byte order conversion''))"

text \<open>
  \<open>test_stringwraplayer.cpp\<close>.  A byte that is written through an iterator over other
  elements is converted: to a \<open>char\<close>, which is signed or not, or to an \<open>int\<close>, also in
  \<open>ConvertibleToInt\<close>.  All of them are compared with bytes as integers.
\<close>

definition char_value :: "bool \<Rightarrow> byte \<Rightarrow> int" where
  "char_value char_signed b = (if char_signed then sint b else uint b)"

definition fill_elements :: "(byte \<Rightarrow> int) \<Rightarrow> endianness \<Rightarrow> stringwrap_layer \<Rightarrow> int list result" where
  "fill_elements convert host m =
     rbind (serialize sw_size (sw_fillSerialized host) m) (\<lambda>bytes. Inr (map convert bytes))"

definition test_stringwraplayer :: "bool \<Rightarrow> endianness \<Rightarrow> byte list \<Rightarrow> test_module result" where
  "test_stringwraplayer char_signed host orig_string =
     (let stringwrap_down = sw_ctor orig_string;
          t = DECLARE_TEST ''class StringWrapLayer'';
          t = TEST_ASSERT 56 (sw_message_string stringwrap_down = orig_string) t;
          t = TEST_ASSERT 61 (sw_size stringwrap_down = length orig_string * char_size) t
      in rbind (serialize sw_size (sw_fillSerialized host) stringwrap_down) (\<lambda>bytewise.
         rbind (fill_elements (char_value char_signed) host stringwrap_down) (\<lambda>char_vec.
         rbind (fill_elements uint host stringwrap_down) (\<lambda>int_list.
         rbind (fill_elements uint host stringwrap_down) (\<lambda>convint_list.
         let t = asserts [(89, orig_string = take (length bytewise div char_size) bytewise),
                (97, map uint bytewise = char_vec), (102, map uint bytewise = int_list),
                (107, map uint bytewise = convint_list)] t;
             ser_data = sd_ctor bytewise 0 (length bytewise)
         in case sw_of_serialized host ser_data of
              Inr stringwrap_up \<Rightarrow> Inr (TEST_ASSERT 117 (sw_message_string stringwrap_up = orig_string) t)
            | Inl (Throw e) \<Rightarrow> Inr (TEST_ASSERT 122 False t)
            | Inl (Undefined u) \<Rightarrow> Inl (Undefined u))))))"

text \<open>
  \<open>test_segmentationlayer.cpp\<close>.  The body is copied from the packet as if it had
  been read from the network.
\<close>

definition test_segmentationlayer :: "endianness \<Rightarrow> byte list \<Rightarrow> test_module result" where
  "test_segmentationlayer host src_array =
     (let somedata = src_array; serdat_down = sd_ctor somedata 0 (length src_array);
          t = DECLARE_TEST ''class SegmentationLayer'';
          t = TEST_ASSERT 22 (sd_size serdat_down = length src_array) t;
          segmlayer = fst (sd_move_ctor serdat_down);
          t = TEST_ASSERT 26 (segm_size sd_size segmlayer = length src_array + 4) t
      in rbind (serialize (segm_size sd_size) (segm_fillSerialized host sd_size sd_fillSerialized) segmlayer) (\<lambda>raw_ser.
         rbind (get_byte (raw_ser, 0)) (\<lambda>(id, it).
         rbind (readbytes host TYPE(16) it) (\<lambda>(size_raw, it).
         rbind (get_byte it) (\<lambda>(zero, it).
         let t = asserts [(38, id = 0x80), (41, unat (hostbo_uint2b host size_raw) = length src_array + 4),
                (42, zero = 0), (43, drop (snd it) raw_ser = src_array)] t
         in case decodeHeader host (raw_ser, 0) of
              Inl (Throw e) \<Rightarrow> if caught_as_InvalidHeaderError e then Inr (TEST_ASSERT 75 False t) else Inl (Throw e)
            | Inl (Undefined u) \<Rightarrow> Inl (Undefined u)
            | Inr header \<Rightarrow>
                rbind (vector_ctor (unat (packetsize header) - 4)) (\<lambda>body.
                rbind (put_bytes (drop (snd it) raw_ser) (body, 0)) (\<lambda>(body, _).
                let rcvd = fst (sd_move_ctor (sd_ctor body 0 (length body)));
                    serdat_up = fst (sd_move_ctor rcvd)
                in Inr (asserts [(61, segm_size sd_size rcvd = length src_array + 4),
                     (65, take (sd_size serdat_up) (drop (sd_begin serdat_up) (sd_memblock serdat_up)) = src_array)] t))))))))"

text \<open>\<open>test_neartypes.cpp\<close>; the identifiers are read from the bytes of two integers.\<close>

definition test_neartypes :: "endianness \<Rightarrow> byte list \<Rightarrow> uint8b \<Rightarrow> uint8b \<Rightarrow> test_module result" where
  "test_neartypes host message_string f t_id =
     (let sw = sw_ctor message_string;
          num1 = num_of_stringwrap (sw_ctor message_string) user_id_none user_id_none 0;
          num2 = num_of_stringwrap (sw_ctor message_string) user_id_none user_id_none 0;
          num3 = num_of_stringwrap sw user_id_none user_id_none 0;
          str = \<lambda>num. sw_message_string (num_stringwrap num);
          t = TEST_ASSERT 43 (str num1 = str num2 \<and> str num1 = str num3 \<and> str num2 = str num3)
                (DECLARE_TEST ''class NearUserMessage'')
      in rbind (uuid_of_iter host (object_bytes host t_id, 0)) (\<lambda>recipient.
         rbind (uuid_of_iter host (object_bytes host f, 0)) (\<lambda>sender.
         let down = num_of_stringwrap (sw_ctor message_string) recipient sender 0xF0
         in rbind (serialize num_size (num_fillSerialized host) down) (\<lambda>bytes.
            case num_of_serialized host (sd_ctor bytes 0 (length bytes)) of
              Inl (Throw e) \<Rightarrow> Inr (TEST_ASSERT 88 False t)
            | Inl (Undefined u) \<Rightarrow> Inl (Undefined u)
            | Inr up \<Rightarrow> Inr (asserts [(73, str up = message_string), (74, uuid_eq (num_recipient up) recipient),
                (75, uuid_eq (num_sender up) sender), (76, num_msg_id up = 0xF0)] t)))))"

lemma byteorder_passes: "conclude_test (test_byteorder host) = 0"
  unfolding test_byteorder_def Let_def conclude_asserts
  by (cases host)
    (simp_all add: to_netbo_def reversebytes_uint4b_def reversebytes_uint2b_def reversebytes_int4b_def
      reversebytes_int2b_def)

text \<open>The test compares bytes with characters: where these are signed it needs an ASCII text.\<close>

lemma char_value_uint: "uint b = char_value char_signed b \<longleftrightarrow> \<not> char_signed \<or> b < 0x80"
proof -
  have "sint b = (uint b + 128) mod 256 - 128" using int_word_sint [of "uint b", where 'a = 8] by simp
  moreover have "0 \<le> uint b" "uint b < 256" using unsigned_less [of b, where 'a = int] by simp_all
  moreover have "(uint b + 128) mod 256 = uint b - 128" if "128 \<le> uint b"
    using mod_add_self2 [of "uint b - 128" 256] that calculation(3) by (simp add: mod_pos_pos_trivial add.commute)
  ultimately have "uint b = sint b \<longleftrightarrow> uint b < 128"
    by (cases "uint b < 128") (simp_all add: mod_pos_pos_trivial)
  then show ?thesis by (simp add: char_value_def word_less_def)
qed

lemma stringwraplayer_passes:
  assumes "length s \<le> vector_max_size"
  shows "\<exists>t. test_stringwraplayer char_signed host s = Inr t \<and>
     (conclude_test t = 0 \<longleftrightarrow> \<not> char_signed \<or> list_all (\<lambda>b. b < 0x80) s)"
proof -
  let ?t = "asserts
      [(56, True), (61, True), (89, True), (97, map uint s = map (char_value char_signed) s), (102, True), (107, True), (117, True)]
      (DECLARE_TEST ''class StringWrapLayer'')"
  have "serialize sw_size (sw_fillSerialized host) \<lparr>sw_message_string = s\<rparr> = Inr s"
    using sw.serialize_wire [of "\<lparr>sw_message_string = s\<rparr>" host] assms by (simp add: sw_size_def char_size_def)
  moreover have "sw_of_serialized host (sd_of_block s) = Inr \<lparr>sw_message_string = s\<rparr>"
    by (simp add: sw_of_serialized_ok)
  ultimately have run: "test_stringwraplayer char_signed host s = Inr ?t"
    by (simp add: test_stringwraplayer_def fill_elements_def Let_def sd_of_block_def sw_size_def char_size_def)
      (simp add: asserts_def TEST_ASSERT_def)
  have "conclude_test ?t = 0 \<longleftrightarrow> map uint s = map (char_value char_signed) s"
    unfolding conclude_asserts by simp
  also have "\<dots> \<longleftrightarrow> \<not> char_signed \<or> list_all (\<lambda>b. b < 0x80) s"
    by (auto simp: char_value_uint list_all_iff)
  finally show ?thesis using run by blast
qed

lemma segmentationlayer_passes:
  assumes "length src + 4 < 65536"
  shows "\<exists>t. test_segmentationlayer host src = Inr t \<and> conclude_test t = 0"
proof -
  define n where "n = (word_of_nat (length src + 4) :: uint2b)"
  define w where "w = segm_header_bytes n @ src"
  have small: "length src + 4 \<le> vector_max_size" using assms by (simp add: vector_max_size_def)
  have size: "unat n = length src + 4" using assms unfolding n_def by (simp only: unat_uint2b) simp
  have ser: "serialize (segm_size sd_size) (segm_fillSerialized host sd_size sd_fillSerialized) (sd_of_block src) = Inr w"
    using sd.segm_serialize [of "sd_of_block src" host] small
    by (simp add: w_def n_def segm_wire_def segm_header_length_def)
  have bytes: "w = 0x80 # ucast n # ucast (drop_bit 8 n) # 0 # src"
    by (simp add: w_def segm_header_bytes_def SEGM_LAYER_ID_def le_bytes_2)
  have "hostbo_uint2b host (object_of_bytes host (le_bytes 2 n)) = word_of_le (le_bytes 2 n)"
    by (rule hostbo_read_uint2b) simp
  then have conv: "hostbo_uint2b host (object_of_bytes host (le_bytes 2 n)) = n" by (simp add: word_of_le_le_bytes)
  have read: "get_byte (w, 0) = Inr (0x80, (w, Suc 0))" "get_byte (w, 3) = Inr (0, (w, 4))"
      "readbytes host TYPE(16) (w, Suc 0) = Inr (object_of_bytes host (le_bytes 2 n), (w, 3))"
    unfolding bytes by (simp_all add: get_byte_def readbytes_def get_bytes_fits le_bytes_2)
  have "decodeHeader host (w, 0) = Inr \<lparr>packetsize = n\<rparr>" unfolding w_def by (rule decodeHeader_header_bytes)
  moreover have "vector_ctor (length src) = Inr (replicate (length src) 0)" "drop 4 w = src"
    using small by (simp_all add: vector_ctor_small w_def)
  ultimately show ?thesis
    using ser small
    by (simp add: test_segmentationlayer_def Let_def sd_of_block_def read size conv put_bytes_fresh
        TEST_ASSERT_def sd_move_ctor_def sd_size_def segm_size_def segm_header_length_def conclude_test_def DECLARE_TEST_def)
qed

lemma neartypes_passes:
  assumes "length s + 21 \<le> vector_max_size"
  shows "\<exists>t. test_neartypes host s f t_id = Inr t \<and> conclude_test t = 0"
proof -
  have ids: "\<exists>u. uuid_of_iter host (object_bytes host x, 0) = Inr u" for x :: uint8b
    by (simp add: uuid_of_iter_fits)
  from ids obtain r s1 where r: "uuid_of_iter host (object_bytes host t_id, 0) = Inr r"
      and s1: "uuid_of_iter host (object_bytes host f, 0) = Inr s1" by blast
  let ?m = "num_of_stringwrap (sw_ctor s) r s1 0xF0"
  have "num_size ?m \<le> vector_max_size"
    using assms by (simp add: num_of_stringwrap_def num_size_def sw_size_def char_size_def)
  then have "serialize num_size (num_fillSerialized host) ?m = Inr (num_wire ?m)" by (rule num.serialize_wire [OF TrueI])
  moreover have "num_of_serialized host (sd_of_block (num_wire ?m)) = Inr ?m"
    by (rule num_of_serialized_wire) simp_all
  ultimately show ?thesis
    using r s1
    by (simp add: test_neartypes_def Let_def sd_of_block_def TEST_ASSERT_def conclude_test_def DECLARE_TEST_def)
      (simp add: num_of_stringwrap_def)
qed

section \<open>The test of ConnectedClient\<close>

text \<open>
  \<open>test_connected-client.cpp\<close>.  The owner of the connection, \<open>MockServer\<close>, answers a
  user message with a string, without waiting for the write, and shuts the
  connection down; \<open>sendPacket\<close> is instantiated for packets of strings here.  The two
  texts are arguments; those of the program are literals, without a zero byte, so
  that \<open>strlen\<close> is their length.
\<close>

definition cc_sendPacket_string :: "endianness \<Rightarrow> stringwrap_layer \<Rightarrow> connected_client \<Rightarrow> connected_client result" where
  "cc_sendPacket_string host =
     cc_sendPacket_move (segm_size sw_size) (segm_fillSerialized host sw_size (sw_fillSerialized host))"

definition receiveCallback ::
  "endianness \<Rightarrow> byte list \<Rightarrow> int \<Rightarrow> serialized_data \<Rightarrow> connected_client \<Rightarrow> connected_client result" where
  "receiveCallback host INSTRING client_id data cc =
     rbind (num_of_serialized host data) (\<lambda>_.
     rbind (cc_sendPacket_string host (sw_ctor INSTRING) cc) (\<lambda>cc.
     Inr (cc_shutdown cc)))"

definition mock_server :: "endianness \<Rightarrow> byte list \<Rightarrow> cc_callback" where
  "mock_server host INSTRING sig cc =
     (case sig of
        ReceivedMessage client_id data \<Rightarrow> receiveCallback host INSTRING client_id data cc
      | Disconnected client_id \<Rightarrow> Inr cc)"

text \<open>The global variable that every call of \<open>receiveCallback\<close> assigns, from the list of the calls.\<close>

fun data_out_received :: "endianness \<Rightarrow> cc_signal list \<Rightarrow> byte list \<Rightarrow> byte list" where
  "data_out_received host [] out = out"
| "data_out_received host (Disconnected i # sigs) out = data_out_received host sigs out"
| "data_out_received host (ReceivedMessage i data # sigs) out =
     data_out_received host sigs
       (case num_of_serialized host data of
          Inr m \<Rightarrow> sw_message_string (num_stringwrap m)
        | Inl f \<Rightarrow> out)"

definition test_sendMessage :: "endianness \<Rightarrow> byte list \<Rightarrow> byte list result" where
  "test_sendMessage host data =
     serialize (segm_size num_size) (segm_fillSerialized host num_size (num_fillSerialized host))
       (num_of_stringwrap (sw_ctor data) user_id_none user_id_none 0)"

text \<open>
  \<open>boost::asio::read\<close> of the bytes the other side sends, as documented: it reads as
  many as the buffer holds, and throws when the connection ends before.
\<close>

definition blocking_read :: "nat \<Rightarrow> iter \<Rightarrow> (byte list \<times> iter) result" where
  "blocking_read n net =
     (if snd net + n \<le> length (fst net) then get_bytes n net else Inl (Throw (SystemError ''End of file'')))"

text \<open>\<open>main\<close> from the reading of the reply on; \<open>received\<close> is what the mock server has received.\<close>

definition test_reads_reply ::
  "endianness \<Rightarrow> byte list \<Rightarrow> byte list \<Rightarrow> byte list \<Rightarrow> byte list \<Rightarrow> test_module \<Rightarrow> test_module result" where
  "test_reads_reply host INSTRING OUTSTRING net received t =
     rbind (blocking_read segm_header_length (net, 0)) (\<lambda>(headerbuf, net).
     rbind (readbytes host TYPE(16) (headerbuf, 1)) (\<lambda>(raw, _).
     let packetsize = hostbo_uint2b host raw;
         t = TEST_ASSERT 196 (unat packetsize = segm_header_length + length INSTRING) t
     in rbind (vector_ctor (body_size \<lparr>packetsize = packetsize\<rparr>)) (\<lambda>bodybuf.
        rbind (blocking_read (length bodybuf) net) (\<lambda>(bodybuf, _).
        rbind (sw_of_serialized host (sd_of_block bodybuf)) (\<lambda>in_data.
        Inr (asserts [(217, sw_message_string in_data = INSTRING), (218, received = OUTSTRING)] t))))))"

section \<open>What the test shows\<close>

text \<open>The answer to a packet with a user message, and to one without.\<close>

lemma mock_server_answers:
  assumes "length ins + 4 \<le> vector_max_size" and "0 < cc_owners cc"
    and "num_of_serialized host (sd_of_block body) = Inr msg"
  shows "ReceiveBodyHandler (mock_server host ins) Success n body cc = Inr (cc_startReceive (cc_shutdown
     (cc_async_write (segm_wire sw_message_string \<lparr>sw_message_string = ins\<rparr>)
       (cc\<lparr>cc_signals := cc_signals cc @ [ReceivedMessage (cc_connection_id cc) (sd_of_block body)]\<rparr>))))"
proof -
  have "serialize (segm_size sw_size) (segm_fillSerialized host sw_size (sw_fillSerialized host)) \<lparr>sw_message_string = ins\<rparr> =
      Inr (segm_wire sw_message_string \<lparr>sw_message_string = ins\<rparr>)"
    using sw.segm_serialize [of "\<lparr>sw_message_string = ins\<rparr>" host] assms(1) by (simp add: sw_size_def char_size_def)
  with assms(2,3) show ?thesis
    by (simp add: ReceiveBodyHandler_def locked_def cc_emit_def mock_server_def receiveCallback_def
        cc_sendPacket_string_def cc_sendPacket_move_def cc_sendPacket_def)
qed

text \<open>An exception of the owner's callback is not caught on its way out of the handler.\<close>

lemma callback_exception_leaves_handler:
  "0 < cc_owners cc \<Longrightarrow> num_of_serialized host (sd_of_block body) = Inl f \<Longrightarrow>
   ReceiveBodyHandler (mock_server host ins) Success n body cc = Inl f"
  by (simp add: ReceiveBodyHandler_def locked_def cc_emit_def mock_server_def receiveCallback_def)

text \<open>The reader of the reply finds it, on a host of either byte order.\<close>

lemma reply_is_read:
  assumes "length ins + 4 < 65536"
  shows "test_reads_reply host ins outs (segm_wire sw_message_string \<lparr>sw_message_string = ins\<rparr>) outs t = Inr t"
proof -
  define n where "n = (word_of_nat (length ins + 4) :: uint2b)"
  have size: "unat n = length ins + 4" using assms unfolding n_def by (simp only: unat_uint2b) simp
  define w where "w = segm_wire sw_message_string \<lparr>sw_message_string = ins\<rparr>"
  have w: "w = segm_header_bytes n @ ins" by (simp add: w_def segm_wire_def segm_header_length_def n_def)
  have hdr: "blocking_read 4 (w, 0) = Inr (segm_header_bytes n, (w, 4))"
    by (simp add: blocking_read_def w get_bytes_fits)
  have body: "blocking_read (length ins) (w, 4) = Inr (ins, (w, 4 + length ins))"
    by (simp add: blocking_read_def w get_bytes_fits)
  have "hostbo_uint2b host (object_of_bytes host (le_bytes 2 n)) = word_of_le (le_bytes 2 n)"
    by (rule hostbo_read_uint2b) simp
  then have conv: "hostbo_uint2b host (object_of_bytes host (le_bytes 2 n)) = n" by (simp add: word_of_le_le_bytes)
  have raw: "readbytes host TYPE(16) (segm_header_bytes n, Suc 0) =
      Inr (object_of_bytes host (le_bytes 2 n), (segm_header_bytes n, 3))"
    by (simp add: readbytes_def segm_header_bytes_def get_bytes_fits le_bytes_2)
  have "vector_ctor (body_size \<lparr>packetsize = n\<rparr>) = Inr (replicate (length ins) 0)"
    using assms by (simp add: body_size_cases size vector_ctor_small vector_max_size_def)
  then have "test_reads_reply host ins outs w outs t = Inr t"
    by (simp add: test_reads_reply_def segm_header_length_def hdr raw conv Let_def size body
        sw_of_serialized_ok TEST_ASSERT_def)
  then show ?thesis by (simp only: w_def)
qed

text \<open>The mock server and a packet with a user message.\<close>

lemma mock_server_session:
  assumes "length ins + 4 \<le> vector_max_size" and "length hdr = 4" and "header_verdict hdr = Inr (length body)"
    and "num_of_serialized host (sd_of_block body) = Inr m"
  shows "\<exists>cc. feeds cc_want (cc_arrive host (mock_server host ins)) (hdr @ body) (cc_makeInstance i) (Inr cc) [] \<and>
     cc_pending cc = [CCWrite (segm_wire sw_message_string \<lparr>sw_message_string = ins\<rparr>), CCReadHeader] \<and>
     cc_shut_down cc \<and> cc_signals cc = [ReceivedMessage i (sd_of_block body)]"
proof -
  let ?arrive = "cc_arrive host (mock_server host ins)"
  note c0 = cc_makeInstance_def cc_startReceive_def cc_start_def cc_ctor_def
  define c0 where "c0 = cc_makeInstance i"
  define c1 where "c1 = c0\<lparr>cc_pending := [CCReadBody (length body)], cc_header_buffer := hdr\<rparr>"
  define c2 where "c2 = cc_startReceive (cc_shutdown (cc_async_write (segm_wire sw_message_string \<lparr>sw_message_string = ins\<rparr>)
     (c1\<lparr>cc_pending := [], cc_signals := [ReceivedMessage i (sd_of_block body)]\<rparr>)))"
  have i0: "cc_pending c0 = [CCReadHeader]" "0 < cc_owners c0" "cc_signals c0 = []" "cc_connection_id c0 = i"
    by (simp_all add: c0_def c0)
  have hdr: "?arrive hdr c0 = Inr c1"
    using cc_header_outcomes [OF i0(2) assms(2), of "[]" "[]" host "mock_server host ins"]
      header_verdict_Inr [OF assms(2,3)] i0(1)
    by (simp add: first_index_def cc_start_def c1_def)
  have body: "?arrive body c1 = Inr c2"
    using mock_server_answers [OF assms(1) _ assms(4), of "c1\<lparr>cc_pending := []\<rparr>" "length body"] i0
    by (simp add: cc_arrive_def cc_complete_def first_index_def c1_def c2_def)
  have c2: "cc_pending c2 = [CCWrite (segm_wire sw_message_string \<lparr>sw_message_string = ins\<rparr>), CCReadHeader]"
      "cc_shut_down c2" "cc_signals c2 = [ReceivedMessage i (sd_of_block body)]"
    by (simp_all add: c2_def cc_startReceive_def cc_start_def cc_shutdown_def cc_async_write_def)
  have "feeds cc_want ?arrive [] c2 (Inr c2) []"
    by (rule feeds_stop) (auto simp: cc_want_def c2 first_index_def)
  then have "feeds cc_want ?arrive body c1 (Inr c2) []"
    using feeds_read [of cc_want c1 "length body" body ?arrive c2] body
    by (simp add: cc_want_def first_index_def c1_def)
  then have "feeds cc_want ?arrive (hdr @ body) c0 (Inr c2) []"
    using feeds_read [of cc_want c0 4 "hdr @ body" ?arrive c1] hdr assms(2)
    by (simp add: cc_want_def first_index_def i0(1))
  with c2 show ?thesis unfolding c0_def by blast
qed



end
