(* ===== verification/ServerStore.thy ===== *)
theory ServerStore
  imports Framing RefCounter
begin

text \<open>
  \<open>src/server/servevent.hpp\<close>, the data members of \<open>RemotePeer\<close> and
  \<open>DispatchingServer\<close>, and the \<open>std::map\<close> of peers.  The map owns the peer
  objects: a peer that is not in the map does not exist, and using it through
  a reference is \<open>UseAfterFree\<close>.
\<close>

section \<open>Server events\<close>

type_synonym connection_id = int

datatype event_kind_t = ID_MSG_RECEIVED | ID_CONNECTION_ERROR | ID_CAN_DELETE

text \<open>
  \<open>BasicServerEvent\<close> itself is only created for \<open>ID_CAN_DELETE\<close>; the other kinds
  are instances of \<open>ServerEvent1Parm\<close> with their parameter.
\<close>

datatype server_event =
    CanDeleteEvent connection_id
  | ReceivedMessageEvent connection_id serialized_data
  | ConnectionErrorEvent connection_id string

primrec event_kind :: "server_event \<Rightarrow> event_kind_t" where
  "event_kind (CanDeleteEvent i) = ID_CAN_DELETE"
| "event_kind (ReceivedMessageEvent i data) = ID_MSG_RECEIVED"
| "event_kind (ConnectionErrorEvent i msg) = ID_CONNECTION_ERROR"

primrec event_connection_id :: "server_event \<Rightarrow> connection_id" where
  "event_connection_id (CanDeleteEvent i) = i"
| "event_connection_id (ReceivedMessageEvent i data) = i"
| "event_connection_id (ConnectionErrorEvent i msg) = i"

section \<open>std::map\<close>

text \<open>Key-value pairs in ascending order of the keys.\<close>

fun map_put :: "'k::linorder \<Rightarrow> 'v \<Rightarrow> ('k \<times> 'v) list \<Rightarrow> ('k \<times> 'v) list" where
  "map_put k v [] = [(k, v)]"
| "map_put k v ((k', v') # kvs) =
     (if k < k' then (k, v) # (k', v') # kvs
      else if k = k' then (k, v) # kvs
      else (k', v') # map_put k v kvs)"

definition map_erase :: "'k \<Rightarrow> ('k \<times> 'v) list \<Rightarrow> ('k \<times> 'v) list" where
  "map_erase k kvs = filter (\<lambda>p. fst p \<noteq> k) kvs"

definition map_keys :: "('k \<times> 'v) list \<Rightarrow> 'k list" where
  "map_keys kvs = map fst kvs"

definition map_sorted :: "('k::linorder \<times> 'v) list \<Rightarrow> bool" where
  "map_sorted kvs \<longleftrightarrow> sorted_wrt (<) (map_keys kvs)"

locale ordered_map =
  fixes put :: "'k::linorder \<Rightarrow> 'v \<Rightarrow> 'm \<Rightarrow> 'm"
    and erase :: "'k \<Rightarrow> 'm \<Rightarrow> 'm"
    and lookup :: "'m \<Rightarrow> 'k \<Rightarrow> 'v option"
    and keys :: "'m \<Rightarrow> 'k list"
    and inv :: "'m \<Rightarrow> bool"
  assumes lookup_put: "inv m \<Longrightarrow> lookup (put k v m) = (lookup m)(k \<mapsto> v)"
    and lookup_erase: "inv m \<Longrightarrow> lookup (erase k m) = (lookup m)(k := None)"
    and keys_dom: "inv m \<Longrightarrow> set (keys m) = dom (lookup m)"
    and keys_sorted: "inv m \<Longrightarrow> sorted_wrt (<) (keys m)"
    and inv_put: "inv m \<Longrightarrow> inv (put k v m)"
    and inv_erase: "inv m \<Longrightarrow> inv (erase k m)"
begin

lemma keys_put: "inv m \<Longrightarrow> set (keys (put k v m)) = insert k (set (keys m))"
  by (simp add: keys_dom inv_put lookup_put)

lemma keys_erase: "inv m \<Longrightarrow> set (keys (erase k m)) = set (keys m) - {k}"
  by (simp add: keys_dom inv_erase lookup_erase)

lemma sorted_keys_unique:
  assumes "inv m" "inv m'" "set (keys m) = set (keys m')"
  shows "keys m = keys m'"
  using assms strict_sorted_equal keys_sorted by metis

text \<open>Overwriting a key that is present leaves the order of the keys alone.\<close>

lemma keys_put_present: "inv m \<Longrightarrow> k \<in> set (keys m) \<Longrightarrow> keys (put k v m) = keys m"
  by (rule sorted_keys_unique) (simp_all add: inv_put keys_put insert_absorb)

lemma lookup_key: "inv m \<Longrightarrow> k \<in> set (keys m) \<Longrightarrow> \<exists>v. lookup m k = Some v"
  by (simp add: keys_dom domD)

end

lemma set_map_keys_put: "set (map_keys (map_put k v kvs)) = insert k (set (map_keys kvs))"
  by (induction k v kvs rule: map_put.induct) (auto simp: map_keys_def)

lemma map_sorted_put: "map_sorted kvs \<Longrightarrow> map_sorted (map_put k v kvs)"
proof (induction k v kvs rule: map_put.induct)
  case (2 k v k' v' kvs)
  then show ?case
    using set_map_keys_put [of k v kvs]
    by (auto simp: map_sorted_def map_keys_def dest: order.strict_trans)
qed (simp add: map_sorted_def map_keys_def)

lemma map_of_put: "map_sorted kvs \<Longrightarrow> map_of (map_put k v kvs) = (map_of kvs)(k \<mapsto> v)"
  by (induction k v kvs rule: map_put.induct)
    (auto simp: map_sorted_def map_keys_def fun_eq_iff)

lemma map_of_erase: "map_of (map_erase k kvs) = (map_of kvs)(k := None)"
  by (induction kvs) (auto simp: map_erase_def fun_eq_iff)

lemma sorted_wrt_map_erase: "map_sorted kvs \<Longrightarrow> map_sorted (map_erase k kvs)"
  by (simp add: map_sorted_def map_keys_def map_erase_def sorted_wrt_map sorted_wrt_filter)

interpretation peers_map: ordered_map map_put map_erase map_of map_keys map_sorted
  by unfold_locales
    (simp_all add: map_of_put map_of_erase map_sorted_put sorted_wrt_map_erase,
      simp_all add: map_keys_def map_sorted_def dom_map_of_conv_image_fst)

section \<open>The state of the server\<close>

record remote_peer =
  rp_connection_id :: connection_id
  rp_refs :: ref_counter
  rp_header_buffer :: "byte list"
  rp_error_happened :: bool
  rp_socket_open :: bool

datatype srv_op =
    Accept
  | PeerReadHeader connection_id
  | PeerReadBody connection_id nat
  | PeerSend connection_id "byte list"

datatype srv_log =
    LogReceivedFrom connection_id
  | LogConnectionError connection_id string
  | LogAcceptFailed string
  | LogNewClient

record server =
  peers_list :: "(connection_id \<times> remote_peer) list"
  srv_pending :: "srv_op list"
  current_conn_id :: int
  srv_stopped :: bool
  srv_out :: "srv_log list"

primrec op_peer :: "srv_op \<Rightarrow> connection_id option" where
  "op_peer Accept = None"
| "op_peer (PeerReadHeader i) = Some i"
| "op_peer (PeerReadBody i n) = Some i"
| "op_peer (PeerSend i data) = Some i"

definition peer_ids :: "server \<Rightarrow> connection_id list" where
  "peer_ids s = map_keys (peers_list s)"

text \<open>Access to the object behind a reference.\<close>

definition with_peer :: "connection_id \<Rightarrow> (remote_peer \<Rightarrow> 'a result) \<Rightarrow> server \<Rightarrow> 'a result" where
  "with_peer i f s =
     (case map_of (peers_list s) i of None \<Rightarrow> Inl (Undefined UseAfterFree) | Some p \<Rightarrow> f p)"

definition put_peer :: "connection_id \<Rightarrow> remote_peer \<Rightarrow> server \<Rightarrow> server" where
  "put_peer i p s = s\<lparr>peers_list := map_put i p (peers_list s)\<rparr>"

definition npending :: "connection_id \<Rightarrow> server \<Rightarrow> nat" where
  "npending i s = length (filter (\<lambda>op. op_peer op = Some i) (srv_pending s))"

section \<open>The invariant\<close>

text \<open>
  Every peer knows its key, and counts the operations that are pending on it
  and \<open>extra i\<close> more references (those of the handler that is running), at
  least one; every pending operation belongs to an existing peer; identifiers
  are given out in ascending order.
\<close>

definition peer_inv :: "connection_id \<Rightarrow> nat \<Rightarrow> remote_peer \<Rightarrow> bool" where
  "peer_inv i n p \<longleftrightarrow>
     rp_connection_id p = i \<and> reference_count (rp_refs p) = of_nat n \<and> rc_action (rp_refs p) \<and>
     0 < n \<and> length (rp_header_buffer p) = segm_header_length"

definition srv_inv :: "(connection_id \<Rightarrow> nat) \<Rightarrow> server \<Rightarrow> bool" where
  "srv_inv extra s \<longleftrightarrow>
     map_sorted (peers_list s) \<and>
     (\<forall>i p. map_of (peers_list s) i = Some p \<longrightarrow> peer_inv i (npending i s + extra i) p) \<and>
     (\<forall>op \<in> set (srv_pending s). \<forall>i. op_peer op = Some i \<longrightarrow> i \<in> set (peer_ids s)) \<and>
     (\<forall>i \<in> set (peer_ids s). 0 < i \<and> i \<le> current_conn_id s) \<and>
     0 \<le> current_conn_id s"

text \<open>One more reference to peer \<open>i\<close>.\<close>

definition one_more :: "connection_id \<Rightarrow> (connection_id \<Rightarrow> nat) \<Rightarrow> connection_id \<Rightarrow> nat" where
  "one_more i extra = extra(i := Suc (extra i))"

lemma srv_inv_peer:
  assumes "srv_inv extra s" and "i \<in> set (peer_ids s)"
  obtains p where "map_of (peers_list s) i = Some p" and "peer_inv i (npending i s + extra i) p"
proof -
  from assms have "map_sorted (peers_list s)" by (simp add: srv_inv_def)
  from peers_map.lookup_key [OF this] assms(2) obtain p where "map_of (peers_list s) i = Some p"
    by (auto simp: peer_ids_def)
  with assms(1) that show ?thesis by (auto simp: srv_inv_def)
qed

lemma peer_ids_put:
  "srv_inv extra s \<Longrightarrow> i \<in> set (peer_ids s) \<Longrightarrow> peer_ids (put_peer i p s) = peer_ids s"
  by (simp add: srv_inv_def peer_ids_def put_peer_def peers_map.keys_put_present)

lemma put_peer_simps [simp]:
  "srv_pending (put_peer i p s) = srv_pending s"
  "current_conn_id (put_peer i p s) = current_conn_id s"
  "npending j (put_peer i p s) = npending j s"
  by (simp_all add: put_peer_def npending_def)

lemma peer_ids_pending [simp]: "peer_ids (s\<lparr>srv_pending := ops\<rparr>) = peer_ids s"
  by (simp add: peer_ids_def)

text \<open>Replacing a peer by one with the right count keeps the invariant.\<close>

lemma srv_inv_put:
  assumes "srv_inv extra s" and "i \<in> set (peer_ids s)"
    and "peer_inv i (npending i s + extra' i) p" and "\<And>j. j \<noteq> i \<Longrightarrow> extra' j = extra j"
  shows "srv_inv extra' (put_peer i p s)"
  using assms peer_ids_put [OF assms(1,2), of p]
  by (auto simp: srv_inv_def)
    (auto simp: put_peer_def map_sorted_put map_of_put npending_def split: if_splits)

text \<open>A reference moves into a pending operation, and out of it.\<close>

lemma srv_inv_add_op:
  assumes "srv_inv (one_more i extra) s" and "i \<in> set (peer_ids s)" and "op_peer op = Some i"
  shows "srv_inv extra (s\<lparr>srv_pending := srv_pending s @ [op]\<rparr>)"
proof -
  have "npending j (s\<lparr>srv_pending := srv_pending s @ [op]\<rparr>) + extra j =
      npending j s + one_more i extra j" for j
    using assms(3) by (auto simp: npending_def one_more_def)
  with assms show ?thesis by (auto simp: srv_inv_def)
qed

lemma filter_remove_nth:
  assumes "k < length xs"
  shows "length (filter P xs) =
    length (filter P (take k xs @ drop (Suc k) xs)) + (if P (xs ! k) then 1 else 0)"
proof -
  from assms have "xs = take k xs @ xs ! k # drop (Suc k) xs" by (rule id_take_nth_drop)
  then have "length (filter P xs) = length (filter P (take k xs @ xs ! k # drop (Suc k) xs))"
    by (rule arg_cong)
  then show ?thesis by simp
qed

lemma srv_inv_remove_op:
  assumes "srv_inv extra s" and "k < length (srv_pending s)" and "op_peer (srv_pending s ! k) = Some i"
  shows "srv_inv (one_more i extra)
     (s\<lparr>srv_pending := take k (srv_pending s) @ drop (Suc k) (srv_pending s)\<rparr>)"
proof -
  let ?s = "s\<lparr>srv_pending := take k (srv_pending s) @ drop (Suc k) (srv_pending s)\<rparr>"
  have np: "npending j ?s + one_more i extra j = npending j s + extra j" for j
    using assms(3) filter_remove_nth [OF assms(2), of "\<lambda>op. op_peer op = Some j"]
    by (auto simp: npending_def one_more_def)
  have "set (srv_pending ?s) \<subseteq> set (srv_pending s)"
    using set_take_subset [of k "srv_pending s"] set_drop_subset [of "Suc k" "srv_pending s"] by auto
  with assms(1) np show ?thesis by (auto simp: srv_inv_def)
qed

lemma srv_inv_remove_accept:
  assumes "srv_inv extra s" and "k < length (srv_pending s)" and "op_peer (srv_pending s ! k) = None"
  shows "srv_inv extra (s\<lparr>srv_pending := take k (srv_pending s) @ drop (Suc k) (srv_pending s)\<rparr>)"
proof -
  let ?s = "s\<lparr>srv_pending := take k (srv_pending s) @ drop (Suc k) (srv_pending s)\<rparr>"
  have np: "npending j ?s = npending j s" for j
    using assms(3) filter_remove_nth [OF assms(2), of "\<lambda>op. op_peer op = Some j"]
    by (auto simp: npending_def)
  have "set (srv_pending ?s) \<subseteq> set (srv_pending s)"
    using set_take_subset [of k "srv_pending s"] set_drop_subset [of "Suc k" "srv_pending s"] by auto
  with assms(1) np show ?thesis by (auto simp: srv_inv_def)
qed

text \<open>A pending operation on a peer shows that the peer exists.\<close>

lemma srv_inv_pending_peer:
  "srv_inv extra s \<Longrightarrow> k < length (srv_pending s) \<Longrightarrow> op_peer (srv_pending s ! k) = Some i \<Longrightarrow>
   i \<in> set (peer_ids s)"
  by (auto simp: srv_inv_def)

section \<open>The observable part of the state\<close>

text \<open>
  What the specification of the server talks about: no reference counts, no
  header buffers and no peer objects.  The view adds the flags of every peer
  object, whether it has reported an error and whether its socket is open.
\<close>

record server_spec =
  sp_pending :: "srv_op list"
  sp_out :: "srv_log list"
  sp_conn_id :: int
  sp_stopped :: bool

record server_view = server_spec +
  v_flags :: "connection_id \<Rightarrow> (bool \<times> bool) option"

definition peer_flags :: "remote_peer \<Rightarrow> bool \<times> bool" where
  "peer_flags p = (rp_error_happened p, rp_socket_open p)"

definition view :: "server \<Rightarrow> server_view" where
  "view s = \<lparr>sp_pending = srv_pending s, sp_out = srv_out s, sp_conn_id = current_conn_id s,
     sp_stopped = srv_stopped s,
     v_flags = (\<lambda>i. map_option peer_flags (map_of (peers_list s) i))\<rparr>"

lemma view_simps [simp]:
  "sp_pending (view s) = srv_pending s"
  "sp_out (view s) = srv_out s"
  "sp_conn_id (view s) = current_conn_id s"
  "sp_stopped (view s) = srv_stopped s"
  "view (s\<lparr>srv_pending := ops\<rparr>) = (view s)\<lparr>sp_pending := ops\<rparr>"
  "view (s\<lparr>srv_out := out\<rparr>) = (view s)\<lparr>sp_out := out\<rparr>"
  "view (s\<lparr>current_conn_id := i\<rparr>) = (view s)\<lparr>sp_conn_id := i\<rparr>"
  "view (s\<lparr>srv_stopped := b\<rparr>) = (view s)\<lparr>sp_stopped := b\<rparr>"
  by (simp_all add: view_def)

lemma view_eqD:
  assumes "view s = w"
  shows "srv_pending s = sp_pending w" "srv_out s = sp_out w" "current_conn_id s = sp_conn_id w"
    "srv_stopped s = sp_stopped w" "v_flags (view s) = v_flags w"
  using assms by auto

lemma view_put:
  "srv_inv extra s \<Longrightarrow>
   view (put_peer i p s) = (view s)\<lparr>v_flags := (v_flags (view s))(i \<mapsto> peer_flags p)\<rparr>"
  by (auto simp: view_def put_peer_def srv_inv_def map_of_put fun_eq_iff)

lemma view_put_same:
  "srv_inv extra s \<Longrightarrow> map_of (peers_list s) i = Some p \<Longrightarrow> peer_flags q = peer_flags p \<Longrightarrow>
   view (put_peer i q s) = view s"
  by (subst view_put) (auto simp: view_def fun_eq_iff)

lemma view_flags_peer: "map_of (peers_list s) i = Some p \<Longrightarrow> v_flags (view s) i = Some (peer_flags p)"
  by (simp add: view_def)

lemma peer_ids_dom: "srv_inv extra s \<Longrightarrow> set (peer_ids s) = dom (v_flags (view s))"
  by (auto simp: srv_inv_def peer_ids_def view_def peers_map.keys_dom dom_def)

text \<open>The order of the peers is determined by which peers there are.\<close>

lemma peer_ids_view:
  assumes "srv_inv extra s" and "srv_inv extra' s'"
    and "dom (v_flags (view s')) = dom (v_flags (view s))"
  shows "peer_ids s' = peer_ids s"
proof -
  from assms have "map_sorted (peers_list s)" "map_sorted (peers_list s')"
    by (simp_all add: srv_inv_def)
  then show ?thesis
    using peer_ids_dom [OF assms(1)] peer_ids_dom [OF assms(2)] assms(3)
    unfolding peer_ids_def by (intro peers_map.sorted_keys_unique) simp_all
qed

end
