(* ===== verification/RemotePeer.thy ===== *)
theory RemotePeer
  imports ServerStore
begin

text \<open>
  \<open>src/server/remotepeer.hpp\<close> and \<open>remotepeer.cpp\<close>: a connected peer of the
  server.  A method runs on the object behind \<open>this\<close>, found in the store by
  its connection id.  The callback given to the constructor is a parameter
  \<open>cb\<close>; what the peer relies on is the locale \<open>peer_callback\<close>, under which
  every handler keeps the invariant and never touches a destroyed object.
\<close>

section \<open>Methods\<close>

type_synonym event_callback = "server_event \<Rightarrow> server \<Rightarrow> server result"

text \<open>Starting an operation whose handler is bound to a \<open>CountedReference\<close> to \<open>*this\<close>.\<close>

definition bind_reference :: "remote_peer \<Rightarrow> remote_peer" where
  "bind_reference p = p\<lparr>rp_refs := counted_ref_copy (rp_refs p)\<rparr>"

definition rp_start :: "connection_id \<Rightarrow> srv_op \<Rightarrow> server \<Rightarrow> server result" where
  "rp_start i op s =
     with_peer i (\<lambda>p. Inr ((put_peer i (bind_reference p) s)\<lparr>srv_pending := srv_pending s @ [op]\<rparr>)) s"

definition startReceive :: "connection_id \<Rightarrow> server \<Rightarrow> server result" where
  "startReceive i s = rp_start i (PeerReadHeader i) s"

text \<open>
  The constructor: \<open>new RemotePeer\<close> creates the object in the store (its owner
  puts it there) and starts receiving.
\<close>

definition rp_init :: "connection_id \<Rightarrow> remote_peer" where
  "rp_init i = \<lparr>rp_connection_id = i, rp_refs = rc_ctor True,
     rp_header_buffer = replicate segm_header_length 0, rp_error_happened = False,
     rp_socket_open = True\<rparr>"

definition rp_ctor :: "connection_id \<Rightarrow> server \<Rightarrow> server result" where
  "rp_ctor i s = startReceive i (put_peer i (rp_init i) s)"

definition canDelete :: "event_callback \<Rightarrow> connection_id \<Rightarrow> server \<Rightarrow> server result" where
  "canDelete cb i s =
     with_peer i (\<lambda>p. if getRefCount (rp_refs p) = 0 then cb (CanDeleteEvent (rp_connection_id p)) s
                      else Inr s) s"

text \<open>
  The death of the handler's reference; the counter's action is \<open>canDelete\<close>.  What
  \<open>decreaseRefCount\<close> still does after the action, the assertion on the count and
  the release of the lock, is \<open>leave_decreaseRefCount\<close>; it has no effect on the
  state, but needs the object (\<open>lost_peer_is_destroyed\<close> in \<open>ServerDrain\<close>).
\<close>

definition rp_release :: "event_callback \<Rightarrow> connection_id \<Rightarrow> server \<Rightarrow> server result" where
  "rp_release cb i s =
     with_peer i (\<lambda>p.
       let (rc, fired) = counted_ref_dtor (rp_refs p);
           s' = put_peer i (p\<lparr>rp_refs := rc\<rparr>) s
       in if fired then canDelete cb i s' else Inr s') s"

definition leave_decreaseRefCount :: "connection_id \<Rightarrow> server \<Rightarrow> server result" where
  "leave_decreaseRefCount i s = with_peer i (\<lambda>p. Inr s) s"

definition postError :: "event_callback \<Rightarrow> connection_id \<Rightarrow> string \<Rightarrow> server \<Rightarrow> server result" where
  "postError cb i errmsg s =
     with_peer i (\<lambda>p.
       if \<not> rp_error_happened p
       then rbind (cb (ConnectionErrorEvent (rp_connection_id p) errmsg) s) (\<lambda>s.
            with_peer i (\<lambda>p. Inr (put_peer i (p\<lparr>rp_error_happened := True\<rparr>) s)) s)
       else Inr s) s"

definition sendHandler ::
  "(error_code \<Rightarrow> string) \<Rightarrow> event_callback \<Rightarrow> error_code \<Rightarrow> nat \<Rightarrow> connection_id \<Rightarrow> byte list
     \<Rightarrow> server \<Rightarrow> server result" where
  "sendHandler em cb error bytes_transferred i sendbuf s =
     (if error = Success then Inr s else postError cb i (em error) s)"

definition rcvHeaderHandler ::
  "endianness \<Rightarrow> (error_code \<Rightarrow> string) \<Rightarrow> event_callback \<Rightarrow> error_code \<Rightarrow> nat \<Rightarrow> connection_id
     \<Rightarrow> server \<Rightarrow> server result" where
  "rcvHeaderHandler host em cb error bytes_transferred i s =
     (if error \<noteq> Success then postError cb i (em error) s
      else with_peer i (\<lambda>p.
        case body_buffer host InvalidHeaderError (rp_header_buffer p) of
          Inr body_data \<Rightarrow> rp_start i (PeerReadBody i (length body_data)) s
        | Inl (Throw e) \<Rightarrow>
            if caught_as_InvalidHeaderError e then postError cb i (exn_what e) s
            else Inl (Throw e)
        | Inl (Undefined u) \<Rightarrow> Inl (Undefined u)) s)"

definition rcvBodyHandler ::
  "(error_code \<Rightarrow> string) \<Rightarrow> event_callback \<Rightarrow> error_code \<Rightarrow> nat \<Rightarrow> connection_id \<Rightarrow> byte list
     \<Rightarrow> server \<Rightarrow> server result" where
  "rcvBodyHandler em cb error bytes_transferred i body_data s =
     (if error \<noteq> Success then postError cb i (em error) s
      else with_peer i (\<lambda>p.
        rbind (cb (ReceivedMessageEvent (rp_connection_id p) (sd_of_block body_data)) s) (\<lambda>s.
        startReceive i s)) s)"

definition sendMessage :: "endianness \<Rightarrow> connection_id \<Rightarrow> serialized_data \<Rightarrow> server \<Rightarrow> server result" where
  "sendMessage host i msg s =
     rbind (serialize (segm_size sd_size) (segm_fillSerialized host sd_size sd_fillSerialized) msg)
       (\<lambda>data. rp_start i (PeerSend i data) s)"

definition shutdownConnection :: "connection_id \<Rightarrow> server \<Rightarrow> server result" where
  "shutdownConnection i s =
     with_peer i (\<lambda>p. Inr (put_peer i (p\<lparr>rp_socket_open := False\<rparr>) s)) s"

lemmas remote_peer_handler_defs [handler_defs] =
  sendHandler_def rcvHeaderHandler_def rcvBodyHandler_def

section \<open>Facts about single methods\<close>

lemma rp_start_ok:
  assumes "srv_inv extra s" and "i \<in> set (peer_ids s)" and "op_peer op = Some i"
  shows "\<exists>s'. rp_start i op s = Inr s' \<and> srv_inv extra s' \<and>
     view s' = (view s)\<lparr>sp_pending := srv_pending s @ [op]\<rparr>"
proof -
  from assms(1,2) obtain p where p: "map_of (peers_list s) i = Some p"
      "peer_inv i (npending i s + extra i) p"
    by (rule srv_inv_peer)
  let ?s = "put_peer i (bind_reference p) s"
  have ids: "peer_ids ?s = peer_ids s" by (rule peer_ids_put [OF assms(1,2)])
  have v: "view ?s = view s"
    by (rule view_put_same [OF assms(1) p(1)]) (simp add: peer_flags_def bind_reference_def)
  have "srv_inv (one_more i extra) ?s"
    by (rule srv_inv_put [OF assms(1,2)])
      (use p(2) in \<open>simp_all add: one_more_def peer_inv_def bind_reference_def rc_defs\<close>)
  then have "srv_inv extra (?s\<lparr>srv_pending := srv_pending ?s @ [op]\<rparr>)"
    using assms by (intro srv_inv_add_op) (simp_all add: ids)
  with v show ?thesis by (simp add: rp_start_def with_peer_def p(1))
qed

lemma startReceive_ok:
  assumes "srv_inv extra s" and "i \<in> set (peer_ids s)"
  shows "\<exists>s'. startReceive i s = Inr s' \<and> srv_inv extra s' \<and>
     view s' = (view s)\<lparr>sp_pending := srv_pending s @ [PeerReadHeader i]\<rparr>"
  using rp_start_ok [OF assms, of "PeerReadHeader i"] by (simp add: startReceive_def)

lemma sendMessage_ok:
  assumes "srv_inv extra s" and "i \<in> set (peer_ids s)"
    and "sd_ok msg" and "sd_size msg + 4 \<le> vector_max_size"
  shows "\<exists>s'. sendMessage host i msg s = Inr s' \<and> srv_inv extra s' \<and>
     view s' = (view s)\<lparr>sp_pending := srv_pending s @ [PeerSend i (segm_wire sd_view msg)]\<rparr>"
  using rp_start_ok [OF assms(1,2), of "PeerSend i (segm_wire sd_view msg)"]
    sd.segm_serialize [OF assms(3,4), of host]
  by (simp add: sendMessage_def)

text \<open>Updating a member other than the reference count.\<close>

lemma with_peer_update_ok:
  assumes "srv_inv extra s" and "i \<in> set (peer_ids s)"
    and upd: "\<And>p n. peer_inv i n p \<Longrightarrow> peer_inv i n (upd p)"
    and flags: "\<And>p. peer_flags (upd p) = f (peer_flags p)"
  shows "\<exists>s'. with_peer i (\<lambda>p. Inr (put_peer i (upd p) s)) s = Inr s' \<and> srv_inv extra s' \<and>
     view s' = (view s)\<lparr>v_flags := (v_flags (view s))(i := map_option f (v_flags (view s) i))\<rparr>"
proof -
  from assms(1,2) obtain p where p: "map_of (peers_list s) i = Some p"
      "peer_inv i (npending i s + extra i) p"
    by (rule srv_inv_peer)
  have "srv_inv extra (put_peer i (upd p) s)"
    by (rule srv_inv_put [OF assms(1,2)]) (simp_all add: upd [OF p(2)])
  then show ?thesis
    using view_put [OF assms(1)] view_flags_peer [OF p(1)] by (simp add: with_peer_def p(1) flags)
qed

definition close_flag :: "connection_id \<Rightarrow> server_view \<Rightarrow> server_view" where
  "close_flag i v = v\<lparr>v_flags := (v_flags v)(i := map_option (\<lambda>(e, _). (e, False)) (v_flags v i))\<rparr>"

lemma shutdownConnection_ok:
  assumes "srv_inv extra s" and "i \<in> set (peer_ids s)"
  shows "\<exists>s'. shutdownConnection i s = Inr s' \<and> srv_inv extra s' \<and> view s' = close_flag i (view s)"
  unfolding shutdownConnection_def close_flag_def
  by (rule with_peer_update_ok [OF assms]) (simp_all add: peer_inv_def peer_flags_def)

text \<open>An error is reported, and the socket closed, once in the life of a peer.\<close>

definition failed_view ::
  "(connection_id \<Rightarrow> string \<Rightarrow> srv_log list) \<Rightarrow> connection_id \<Rightarrow> string \<Rightarrow> server_view \<Rightarrow> server_view" where
  "failed_view err_log i msg v =
     (case v_flags v i of
        Some (False, _) \<Rightarrow> v\<lparr>sp_out := sp_out v @ err_log i msg, v_flags := (v_flags v)(i \<mapsto> (True, False))\<rparr>
      | _ \<Rightarrow> v)"

section \<open>The contract of the callback and the handlers under it\<close>

text \<open>
  A handler that runs for peer \<open>i\<close> holds one reference to it.  The callback
  keeps the invariant and all peers, except that it removes a peer it is told
  it can delete; it closes the socket on an error and starts one operation
  per peer on a received message.  \<open>err_log\<close> and \<open>rcv_log\<close> are what it prints.
\<close>

locale peer_callback =
  fixes cb :: event_callback
    and err_log :: "connection_id \<Rightarrow> string \<Rightarrow> srv_log list"
    and rcv_log :: "connection_id \<Rightarrow> srv_log list"
  assumes cb_error: "srv_inv extra s \<Longrightarrow> i \<in> set (peer_ids s) \<Longrightarrow>
      \<exists>s'. cb (ConnectionErrorEvent i msg) s = Inr s' \<and> srv_inv extra s' \<and>
        view s' = close_flag i ((view s)\<lparr>sp_out := srv_out s @ err_log i msg\<rparr>)"
    and cb_received: "srv_inv extra s \<Longrightarrow> i \<in> set (peer_ids s) \<Longrightarrow>
      length data + 4 \<le> vector_max_size \<Longrightarrow>
      \<exists>s'. cb (ReceivedMessageEvent i (sd_of_block data)) s = Inr s' \<and> srv_inv extra s' \<and>
        view s' = (view s)\<lparr>
          sp_out := srv_out s @ rcv_log i,
          sp_pending := srv_pending s @
            map (\<lambda>j. PeerSend j (segm_wire sd_view (sd_of_block data))) (peer_ids s)\<rparr>"
    and cb_can_delete: "i \<in> set (peer_ids s) \<Longrightarrow>
      cb (CanDeleteEvent i) s = Inr (s\<lparr>peers_list := map_erase i (peers_list s)\<rparr>)"
begin

lemma postError_ok:
  assumes "srv_inv extra s" and "i \<in> set (peer_ids s)"
  shows "\<exists>s'. postError cb i msg s = Inr s' \<and> srv_inv extra s' \<and> view s' = failed_view err_log i msg (view s)"
proof -
  from assms obtain p where p: "map_of (peers_list s) i = Some p"
      "peer_inv i (npending i s + extra i) p"
    by (rule srv_inv_peer)
  then have pid: "rp_connection_id p = i" by (simp add: peer_inv_def)
  note fl = view_flags_peer [OF p(1)]
  show ?thesis
  proof (cases "rp_error_happened p")
    case True
    with p assms fl show ?thesis
      by (simp add: postError_def with_peer_def failed_view_def peer_flags_def)
  next
    case False
    from cb_error [OF assms, of msg] obtain s1 where s1: "cb (ConnectionErrorEvent i msg) s = Inr s1"
        "srv_inv extra s1" "view s1 = close_flag i ((view s)\<lparr>sp_out := srv_out s @ err_log i msg\<rparr>)"
      by blast
    then have "i \<in> set (peer_ids s1)"
      using fl by (simp add: peer_ids_dom [OF s1(2)] close_flag_def domIff)
    from with_peer_update_ok [OF s1(2) this, of "\<lambda>p. p\<lparr>rp_error_happened := True\<rparr>" "\<lambda>(_, b). (True, b)"]
    obtain s2 where "with_peer i (\<lambda>p. Inr (put_peer i (p\<lparr>rp_error_happened := True\<rparr>) s1)) s1 = Inr s2"
        "srv_inv extra s2"
        "view s2 = (view s1)\<lparr>v_flags := (v_flags (view s1))(i := map_option (\<lambda>(_, b). (True, b)) (v_flags (view s1) i))\<rparr>"
      by (auto simp: peer_inv_def peer_flags_def)
    with False s1 fl show ?thesis
      by (simp add: postError_def with_peer_def p(1) pid failed_view_def close_flag_def peer_flags_def)
  qed
qed

lemma sendHandler_ok:
  assumes "srv_inv extra s" and "i \<in> set (peer_ids s)"
  shows "\<exists>s'. sendHandler em cb error n i data s = Inr s' \<and> srv_inv extra s' \<and>
     view s' = (if error = Success then view s else failed_view err_log i (em error) (view s))"
  using assms postError_ok [OF assms] by (simp add: sendHandler_def)

text \<open>
  The only way out of the header handler other than a return is
  \<open>std::length_error\<close>, on a valid header that announces less than a header.
\<close>

lemma rcvHeaderHandler_ok:
  assumes "srv_inv extra s" and "map_of (peers_list s) i = Some p"
  shows "case body_buffer host InvalidHeaderError (rp_header_buffer p) of
       Inl (Throw LengthError) \<Rightarrow>
         error = Success \<longrightarrow> rcvHeaderHandler host em cb error n i s = Inl (Throw LengthError)
     | Inl (Undefined u) \<Rightarrow> False
     | Inl (Throw e) \<Rightarrow> e = InvalidHeaderError \<and> (error = Success \<longrightarrow>
         (\<exists>s'. rcvHeaderHandler host em cb error n i s = Inr s' \<and> srv_inv extra s' \<and>
            view s' = failed_view err_log i (exn_what InvalidHeaderError) (view s)))
     | Inr buf \<Rightarrow> error = Success \<longrightarrow>
         (\<exists>s'. rcvHeaderHandler host em cb error n i s = Inr s' \<and> srv_inv extra s' \<and>
            view s' = (view s)\<lparr>sp_pending := srv_pending s @ [PeerReadBody i (length buf)]\<rparr>)"
    (is ?success)
  and "error \<noteq> Success \<Longrightarrow>
     \<exists>s'. rcvHeaderHandler host em cb error n i s = Inr s' \<and> srv_inv extra s' \<and>
       view s' = failed_view err_log i (em error) (view s)"
proof -
  from assms have mem: "i \<in> set (peer_ids s)"
    by (simp add: peer_ids_def srv_inv_def peers_map.keys_dom domI)
  from assms have len: "length (rp_header_buffer p) = 4"
    by (simp add: srv_inv_def peer_inv_def segm_header_length_def)
  show ?success
  proof (cases "body_buffer host InvalidHeaderError (rp_header_buffer p)")
    case (Inr buf)
    from rp_start_ok [OF assms(1) mem, of "PeerReadBody i (length buf)"]
    show ?thesis by (simp add: rcvHeaderHandler_def with_peer_def assms(2) Inr)
  next
    case (Inl f)
    with body_buffer_cases [OF len, of host InvalidHeaderError]
    have "f = Throw InvalidHeaderError \<or> f = Throw LengthError"
      by (auto simp: Let_def split: if_splits)
    then show ?thesis
    proof
      assume "f = Throw InvalidHeaderError"
      with postError_ok [OF assms(1) mem, of "exn_what InvalidHeaderError"] show ?thesis
        by (auto simp: rcvHeaderHandler_def with_peer_def assms(2) Inl)
    next
      assume "f = Throw LengthError"
      then show ?thesis by (simp add: rcvHeaderHandler_def with_peer_def assms(2) Inl)
    qed
  qed
  show "error \<noteq> Success \<Longrightarrow>
     \<exists>s'. rcvHeaderHandler host em cb error n i s = Inr s' \<and> srv_inv extra s' \<and>
       view s' = failed_view err_log i (em error) (view s)"
    using postError_ok [OF assms(1) mem] by (simp add: rcvHeaderHandler_def)
qed

lemma rcvBodyHandler_ok:
  assumes "srv_inv extra s" and "i \<in> set (peer_ids s)" and "length data + 4 \<le> vector_max_size"
  shows "\<exists>s'. rcvBodyHandler em cb error n i data s = Inr s' \<and> srv_inv extra s' \<and>
     view s' = (if error = Success
       then (view s)\<lparr>
          sp_out := srv_out s @ rcv_log i,
          sp_pending := srv_pending s @
            map (\<lambda>j. PeerSend j (segm_wire sd_view (sd_of_block data))) (peer_ids s) @
            [PeerReadHeader i]\<rparr>
       else failed_view err_log i (em error) (view s))"
proof (cases "error = Success")
  case False
  with postError_ok [OF assms(1,2)] show ?thesis by (simp add: rcvBodyHandler_def)
next
  case True
  from assms(1,2) obtain p where p: "map_of (peers_list s) i = Some p"
      "peer_inv i (npending i s + extra i) p"
    by (rule srv_inv_peer)
  then have pid: "rp_connection_id p = i" by (simp add: peer_inv_def)
  from cb_received [OF assms] obtain s1 where
      s1: "cb (ReceivedMessageEvent i (sd_of_block data)) s = Inr s1" "srv_inv extra s1"
        "view s1 = (view s)\<lparr>
          sp_out := srv_out s @ rcv_log i,
          sp_pending := srv_pending s @
            map (\<lambda>j. PeerSend j (segm_wire sd_view (sd_of_block data))) (peer_ids s)\<rparr>"
    by blast
  have "i \<in> set (peer_ids s1)"
    using assms(2) by (simp add: peer_ids_dom [OF s1(2)] peer_ids_dom [OF assms(1)] s1(3))
  from startReceive_ok [OF s1(2) this] view_eqD(1) [OF s1(3)] s1 True show ?thesis
    by (auto simp: rcvBodyHandler_def with_peer_def p(1) pid)
qed

text \<open>
  When the handler's reference dies the peer is deleted exactly if nothing is
  pending on it any more.
\<close>

lemma rp_release_ok:
  assumes "srv_inv (one_more i (\<lambda>_. 0)) s" and "i \<in> set (peer_ids s)"
    and "length (srv_pending s) < 2 ^ 32"
  shows "\<exists>s'. rp_release cb i s = Inr s' \<and> srv_inv (\<lambda>_. 0) s' \<and>
     view s' = (if npending i s = 0 then (view s)\<lparr>v_flags := (v_flags (view s))(i := None)\<rparr> else view s)"
proof -
  from assms(1,2) obtain p where p: "map_of (peers_list s) i = Some p"
      "peer_inv i (Suc (npending i s)) p"
    by (rule srv_inv_peer) (simp add: one_more_def)
  define q where "q = p\<lparr>rp_refs := fst (counted_ref_dtor (rp_refs p))\<rparr>"
  have sorted: "map_sorted (peers_list s)" using assms(1) by (simp add: srv_inv_def)
  have count: "reference_count (rp_refs q) = of_nat (npending i s)"
    using p(2) by (simp add: q_def peer_inv_def counted_ref_dtor_def decrease_of_nat)
  have qid: "rp_connection_id q = i" using p(2) by (simp add: q_def peer_inv_def)
  have "npending i s \<le> length (srv_pending s)" by (simp add: npending_def)
  with assms(3) have zero: "(of_nat (npending i s) :: 32 word) = 0 \<longleftrightarrow> npending i s = 0"
    by (intro of_nat_32_eq_0) simp
  have fired: "snd (counted_ref_dtor (rp_refs p)) \<longleftrightarrow> npending i s = 0"
    using p(2) count zero by (simp add: q_def peer_inv_def counted_ref_dtor_def decreaseRefCount_def)
  show ?thesis
  proof (cases "npending i s = 0")
    case False
    have "srv_inv (\<lambda>_. 0) (put_peer i q s)"
      by (rule srv_inv_put [OF assms(1,2)])
        (use p(2) count qid False in \<open>simp_all add: one_more_def peer_inv_def q_def counted_ref_dtor_def\<close>)
    then show ?thesis
      using False fired view_put_same [OF assms(1) p(1), of q]
      by (simp add: rp_release_def with_peer_def p(1) case_prod_beta Let_def q_def peer_flags_def)
  next
    case True
    let ?s = "put_peer i q s"
    have ids: "peer_ids ?s = peer_ids s" by (rule peer_ids_put [OF assms(1,2)])
    have look: "map_of (peers_list ?s) i = Some q"
      using sorted by (simp add: put_peer_def map_of_put)
    let ?t = "?s\<lparr>peers_list := map_erase i (peers_list ?s)\<rparr>"
    have sorted': "map_sorted (peers_list ?s)" using sorted by (simp add: put_peer_def map_sorted_put)
    have run: "rp_release cb i s = Inr ?t"
      using True fired look count cb_can_delete [of i ?s] assms(2) ids
      by (simp add: rp_release_def with_peer_def p(1) case_prod_beta Let_def canDelete_def
          getRefCount_def qid flip: q_def)
    have ids_t: "set (peer_ids ?t) = set (peer_ids s) - {i}"
      using peers_map.keys_erase [OF sorted', of i] ids by (simp add: peer_ids_def)
    have gone: "\<forall>op \<in> set (srv_pending s). op_peer op \<noteq> Some i"
      using True by (simp add: npending_def filter_empty_conv)
    have np: "npending j ?t = npending j s" for j by (simp add: npending_def put_peer_def)
    have peers_t: "map_of (map_erase i (peers_list ?s)) = (map_of (peers_list s))(i := None)"
      using sorted by (simp add: put_peer_def map_of_erase map_of_put)
    have "peer_inv j (npending j ?t) r" if "map_of (map_erase i (peers_list ?s)) j = Some r" for j r
    proof -
      from that have "j \<noteq> i" "map_of (peers_list s) j = Some r"
        unfolding peers_t by (auto split: if_splits)
      moreover have "peer_inv j (npending j s + one_more i (\<lambda>_. 0) j) r"
        using assms(1) calculation(2) by (simp add: srv_inv_def)
      ultimately show ?thesis by (simp add: np one_more_def)
    qed
    moreover have "\<forall>op \<in> set (srv_pending ?t). \<forall>j. op_peer op = Some j \<longrightarrow> j \<in> set (peer_ids ?t)"
      using assms(1) gone unfolding ids_t srv_inv_def by auto
    moreover have "\<forall>j \<in> set (peer_ids ?t). 0 < j \<and> j \<le> current_conn_id ?t"
      using assms(1) unfolding ids_t srv_inv_def by simp
    moreover have "0 \<le> current_conn_id ?t" using assms(1) by (simp add: srv_inv_def)
    moreover have "map_sorted (peers_list ?t)" using sorted_wrt_map_erase [OF sorted', of i] by simp
    ultimately have "srv_inv (\<lambda>_. 0) ?t" unfolding srv_inv_def by simp
    moreover have "view ?t = (view s)\<lparr>v_flags := (v_flags (view s))(i := None)\<rparr>"
      by (auto simp: view_def peers_t fun_eq_iff) (simp_all add: put_peer_def)
    ultimately show ?thesis using run True by simp
  qed
qed

end

end
