(* ===== verification/Dispatcher.thy ===== *)
theory Dispatcher
  imports RemotePeer
begin

text \<open>
  \<open>src/server/dispatcher.hpp\<close> and \<open>dispatcher.cpp\<close>: the server that relays
  every message to all peers.  The \<open>io_service\<close> is the list of pending
  operations; \<open>srv_complete\<close> completes one of them with the outcome and the
  data the network gives it and runs its handler.  The dispatcher is the
  provider of \<open>peer_callback\<close>; what it does as a whole is specified, and the
  specification proved, in \<open>ServerSpec\<close>.
\<close>

section \<open>DispatchingServer\<close>

definition srv_print :: "srv_log \<Rightarrow> server \<Rightarrow> server" where
  "srv_print l s = s\<lparr>srv_out := srv_out s @ [l]\<rparr>"

definition startAccept :: "server \<Rightarrow> server" where
  "startAccept s = s\<lparr>srv_pending := srv_pending s @ [Accept]\<rparr>"

definition srv_ctor :: server where
  "srv_ctor = startAccept
     \<lparr>peers_list = [], srv_pending = [], current_conn_id = 0, srv_stopped = False, srv_out = []\<rparr>"

text \<open>
  The whole constructor: opening, binding or listening in the constructor of
  \<open>acceptor\<close> can fail (the port is in use), with a text that the system gives;
  then there is no server.
\<close>

definition server_ctor :: "string option \<Rightarrow> server result" where
  "server_ctor refused =
     (case refused of
        Some what \<Rightarrow> Inl (Throw (SystemError what))
      | None \<Rightarrow> Inr srv_ctor)"

definition int_max :: int where
  "int_max = 2 ^ 31 - 1"

definition getNextConnectionId :: "server \<Rightarrow> (connection_id \<times> server) result" where
  "getNextConnectionId s =
     (if current_conn_id s = int_max then Inl (Undefined SignedOverflow)
      else let i = current_conn_id s + 1 in Inr (i, s\<lparr>current_conn_id := i\<rparr>))"

text \<open>The loop over the list of peers, from \<open>begin()\<close> to \<open>end()\<close>.\<close>

fun distribute_from :: "endianness \<Rightarrow> connection_id list \<Rightarrow> serialized_data \<Rightarrow> server \<Rightarrow> server result" where
  "distribute_from host [] data s = Inr s"
| "distribute_from host (i # is) data s =
     rbind (sendMessage host i data s) (distribute_from host is data)"

definition distributeMessage ::
  "endianness \<Rightarrow> connection_id \<Rightarrow> serialized_data \<Rightarrow> server \<Rightarrow> server result" where
  "distributeMessage host originating_id data s = distribute_from host (peer_ids s) data s"

definition handleServerEvent :: "endianness \<Rightarrow> server_event \<Rightarrow> server \<Rightarrow> server result" where
  "handleServerEvent host evt s =
     (if map_of (peers_list s) (event_connection_id evt) = None then Inr s
      else case evt of
        ReceivedMessageEvent i data \<Rightarrow>
          distributeMessage host i data (srv_print (LogReceivedFrom i) s)
      | ConnectionErrorEvent i msg \<Rightarrow>
          shutdownConnection i (srv_print (LogConnectionError i msg) s)
      | CanDeleteEvent i \<Rightarrow> Inr (s\<lparr>peers_list := map_erase i (peers_list s)\<rparr>))"

definition acceptHandler :: "(error_code \<Rightarrow> string) \<Rightarrow> error_code \<Rightarrow> server \<Rightarrow> server result" where
  "acceptHandler em e s =
     (if e \<noteq> Success then
        let s = srv_print (LogAcceptFailed (em e)) s in Inr (s\<lparr>srv_stopped := True\<rparr>)
      else
        rbind (getNextConnectionId (srv_print LogNewClient s)) (\<lambda>(connection_id, s).
        rbind (rp_ctor connection_id s) (\<lambda>s.
        Inr (startAccept s))))"

lemmas dispatcher_handler_defs [handler_defs] = handleServerEvent_def acceptHandler_def

section \<open>Completion of operations\<close>

text \<open>
  An operation that completes leaves the pending list.  A header read puts
  the received bytes into \<open>header_buffer\<close> of its peer before the handler
  runs; a body read fills the vector bound to its handler.  The handler's
  counted reference dies when it returns.
\<close>

definition overwrite :: "byte list \<Rightarrow> byte list \<Rightarrow> byte list" where
  "overwrite data buf = data @ drop (length data) buf"

definition receive_into_header :: "connection_id \<Rightarrow> byte list \<Rightarrow> server \<Rightarrow> server result" where
  "receive_into_header i data s =
     with_peer i (\<lambda>p. Inr (put_peer i (p\<lparr>rp_header_buffer := overwrite data (rp_header_buffer p)\<rparr>) s)) s"

definition srv_take :: "nat \<Rightarrow> server \<Rightarrow> server" where
  "srv_take k s = s\<lparr>srv_pending := take k (srv_pending s) @ drop (Suc k) (srv_pending s)\<rparr>"

definition srv_complete ::
  "endianness \<Rightarrow> (error_code \<Rightarrow> string) \<Rightarrow> nat \<Rightarrow> error_code \<Rightarrow> byte list \<Rightarrow> server \<Rightarrow> server result" where
  "srv_complete host em k err data s =
     (let cb = handleServerEvent host; s1 = srv_take k s in
      case srv_pending s ! k of
        Accept \<Rightarrow> acceptHandler em err s1
      | PeerReadHeader i \<Rightarrow>
          rbind (receive_into_header i data s1) (\<lambda>s.
          rbind (rcvHeaderHandler host em cb err (length data) i s) (rp_release cb i))
      | PeerReadBody i n \<Rightarrow>
          rbind (rcvBodyHandler em cb err (length data) i (overwrite data (replicate n 0)) s1)
            (rp_release cb i)
      | PeerSend i buf \<Rightarrow>
          rbind (sendHandler em cb err (length data) i buf s1) (rp_release cb i))"

text \<open>
  What the network layer documents of a completion: it concerns a pending
  operation of a running service; a read never delivers more than was asked
  for, and exactly that much when it succeeds.
\<close>

primrec op_delivers :: "srv_op \<Rightarrow> error_code \<Rightarrow> byte list \<Rightarrow> bool" where
  "op_delivers Accept err data = (data = [])"
| "op_delivers (PeerReadHeader i) err data =
     (length data \<le> segm_header_length \<and> (err = Success \<longrightarrow> length data = segm_header_length))"
| "op_delivers (PeerReadBody i n) err data =
     (length data \<le> n \<and> (err = Success \<longrightarrow> length data = n))"
| "op_delivers (PeerSend i buf) err data = (data = [])"

definition completion_ok :: "nat \<Rightarrow> error_code \<Rightarrow> byte list \<Rightarrow> server \<Rightarrow> bool" where
  "completion_ok k err data s \<longleftrightarrow>
     \<not> srv_stopped s \<and> k < length (srv_pending s) \<and> op_delivers (srv_pending s ! k) err data"

text \<open>Memory bounds the number of operations; a reference count is an \<open>unsigned\<close>.\<close>

definition few_operations :: "server \<Rightarrow> bool" where
  "few_operations s \<longleftrightarrow> length (srv_pending s) < 2 ^ 31"

section \<open>The dispatcher keeps the contract of the peers' callback\<close>

lemma srv_print_simps [simp]:
  "srv_inv extra (srv_print l s) = srv_inv extra s"
  "view (srv_print l s) = (view s)\<lparr>sp_out := srv_out s @ [l]\<rparr>"
  "peer_ids (srv_print l s) = peer_ids s"
  "peers_list (srv_print l s) = peers_list s"
  "srv_pending (srv_print l s) = srv_pending s"
  "srv_out (srv_print l s) = srv_out s @ [l]"
  "current_conn_id (srv_print l s) = current_conn_id s"
  by (simp_all add: srv_print_def srv_inv_def peer_ids_def npending_def)

lemma srv_inv_stopped [simp]: "srv_inv extra (s\<lparr>srv_stopped := b\<rparr>) = srv_inv extra s"
  by (simp add: srv_inv_def peer_ids_def npending_def)

lemma distribute_from_ok:
  assumes "srv_inv extra s" and "set is \<subseteq> set (peer_ids s)"
    and "sd_ok msg" and "sd_size msg + 4 \<le> vector_max_size"
  shows "\<exists>s'. distribute_from host is msg s = Inr s' \<and> srv_inv extra s' \<and>
     view s' = (view s)\<lparr>sp_pending := srv_pending s @
       map (\<lambda>j. PeerSend j (segm_wire sd_view msg)) is\<rparr>"
  using assms(1,2)
proof (induction "is" arbitrary: s)
  case Nil
  then show ?case by (simp add: view_def)
next
  case (Cons i "is")
  from sendMessage_ok [OF Cons.prems(1) _ assms(3,4), of i host] Cons.prems(2)
  obtain s1 where s1: "sendMessage host i msg s = Inr s1" "srv_inv extra s1"
      "view s1 = (view s)\<lparr>sp_pending := srv_pending s @ [PeerSend i (segm_wire sd_view msg)]\<rparr>"
    by auto
  have "peer_ids s1 = peer_ids s"
    by (rule peer_ids_view [OF Cons.prems(1) s1(2)]) (simp add: s1(3))
  with Cons.IH [OF s1(2)] Cons.prems(2) s1 view_eqD(1) [OF s1(3)] show ?case by simp
qed

lemma peer_known: "srv_inv extra s \<Longrightarrow> i \<in> set (peer_ids s) \<Longrightarrow> map_of (peers_list s) i \<noteq> None"
  by (auto elim: srv_inv_peer)

interpretation relay: peer_callback "handleServerEvent host"
    "\<lambda>i msg. [LogConnectionError i msg]" "\<lambda>i. [LogReceivedFrom i]" for host
proof unfold_locales
  fix extra s i msg
  assume a: "srv_inv extra s" "i \<in> set (peer_ids s)"
  from a have "srv_inv extra (srv_print (LogConnectionError i msg) s)" by simp
  from peer_known [OF a] have "(map_of (peers_list s) i = None) = False" by simp
  with shutdownConnection_ok [OF \<open>srv_inv extra (srv_print (LogConnectionError i msg) s)\<close>, of i] a
  show "\<exists>s'. handleServerEvent host (ConnectionErrorEvent i msg) s = Inr s' \<and> srv_inv extra s' \<and>
      view s' = close_flag i ((view s)\<lparr>sp_out := srv_out s @ [LogConnectionError i msg]\<rparr>)"
    by (auto simp: handleServerEvent_def)
next
  fix extra s i and data :: "byte list"
  assume a: "srv_inv extra s" "i \<in> set (peer_ids s)" and len: "length data + 4 \<le> vector_max_size"
  let ?s = "srv_print (LogReceivedFrom i) s"
  from a have "srv_inv extra ?s" by simp
  from peer_known [OF a] have "(map_of (peers_list s) i = None) = False" by simp
  with distribute_from_ok [OF \<open>srv_inv extra ?s\<close>, of "peer_ids s" "sd_of_block data" host] a len
  show "\<exists>s'. handleServerEvent host (ReceivedMessageEvent i (sd_of_block data)) s = Inr s' \<and>
      srv_inv extra s' \<and>
      view s' = (view s)\<lparr>
        sp_out := srv_out s @ [LogReceivedFrom i],
        sp_pending := srv_pending s @
          map (\<lambda>j. PeerSend j (segm_wire sd_view (sd_of_block data))) (peer_ids s)\<rparr>"
    by (auto simp: handleServerEvent_def distributeMessage_def)
next
  fix s i
  assume "i \<in> set (peer_ids s)"
  then have "map_of (peers_list s) i \<noteq> None"
    by (auto simp: peer_ids_def map_keys_def map_of_eq_None_iff)
  then show "handleServerEvent host (CanDeleteEvent i) s =
      Inr (s\<lparr>peers_list := map_erase i (peers_list s)\<rparr>)"
    by (auto simp: handleServerEvent_def)
qed

section \<open>New peers\<close>

lemma rp_ctor_ok:
  assumes inv: "srv_inv extra s" and i: "i \<notin> set (peer_ids s)" "0 < i" "i \<le> current_conn_id s"
    and extra: "extra i = 0"
  shows "\<exists>s'. rp_ctor i s = Inr s' \<and> srv_inv extra s' \<and>
     view s' = (view s)\<lparr>sp_pending := srv_pending s @ [PeerReadHeader i],
       v_flags := (v_flags (view s))(i \<mapsto> (False, True))\<rparr>"
proof -
  let ?p = "bind_reference (rp_init i)"
  let ?s = "put_peer i ?p (put_peer i (rp_init i) s)"
  let ?t = "?s\<lparr>srv_pending := srv_pending s @ [PeerReadHeader i]\<rparr>"
  have sorted: "map_sorted (peers_list s)" using inv by (simp add: srv_inv_def)
  then have peers: "map_of (map_put i ?p (map_put i (rp_init i) (peers_list s))) =
      (map_of (peers_list s))(i \<mapsto> ?p)"
    by (simp add: map_of_put map_sorted_put)
  have sorted': "map_sorted (map_put i ?p (map_put i (rp_init i) (peers_list s)))"
    using sorted by (simp add: map_sorted_put)
  have none: "npending i s = 0"
    using inv i(1) by (auto simp: npending_def filter_empty_conv srv_inv_def)
  have np: "npending j ?t = npending j s + (if j = i then 1 else 0)" for j
    by (simp add: npending_def)
  have ids: "set (peer_ids ?t) = insert i (set (peer_ids s))"
    using sorted by (simp add: peer_ids_def put_peer_def peers_map.keys_put map_sorted_put)
  have "peer_inv i 1 ?p"
    by (simp add: peer_inv_def bind_reference_def rp_init_def rc_defs)
  then have "peer_inv j (npending j ?t + extra j) r"
    if "((map_of (peers_list s))(i \<mapsto> ?p)) j = Some r" for j r
    using that inv none extra np [of j] by (auto simp: srv_inv_def split: if_splits)
  moreover have "\<forall>op \<in> set (srv_pending ?t). \<forall>j. op_peer op = Some j \<longrightarrow> j \<in> set (peer_ids ?t)"
    using inv unfolding ids srv_inv_def by auto
  moreover have "\<forall>j \<in> set (peer_ids ?t). 0 < j \<and> j \<le> current_conn_id ?t"
    using inv i unfolding ids srv_inv_def by simp
  ultimately have "srv_inv extra ?t"
    using inv sorted' peers unfolding srv_inv_def by (simp add: put_peer_def)
  moreover have "view ?t = (view s)\<lparr>sp_pending := srv_pending s @ [PeerReadHeader i],
       v_flags := (v_flags (view s))(i \<mapsto> (False, True))\<rparr>"
    by (auto simp: view_def put_peer_def peers)
      (auto simp: peer_flags_def bind_reference_def rp_init_def)
  moreover have "rp_ctor i s = Inr ?t"
    using sorted by (simp add: rp_ctor_def startReceive_def rp_start_def with_peer_def put_peer_def map_of_put)
  ultimately show ?thesis by blast
qed

lemma startAccept_ok [simp]:
  "srv_inv extra (startAccept s) = srv_inv extra s"
  "view (startAccept s) = (view s)\<lparr>sp_pending := srv_pending s @ [Accept]\<rparr>"
  by (auto simp: startAccept_def srv_inv_def npending_def)

lemma acceptHandler_ok:
  assumes inv: "srv_inv extra s" and extra: "extra (current_conn_id s + 1) = 0"
  shows "current_conn_id s = int_max \<Longrightarrow> acceptHandler em Success s = Inl (Undefined SignedOverflow)"
    and "current_conn_id s \<noteq> int_max \<Longrightarrow>
      \<exists>s'. acceptHandler em Success s = Inr s' \<and> srv_inv extra s' \<and>
        view s' = (view s)\<lparr>sp_pending := srv_pending s @ [PeerReadHeader (current_conn_id s + 1), Accept],
          sp_out := srv_out s @ [LogNewClient], sp_conn_id := current_conn_id s + 1,
          v_flags := (v_flags (view s))(current_conn_id s + 1 \<mapsto> (False, True))\<rparr>"
proof -
  show "current_conn_id s = int_max \<Longrightarrow> acceptHandler em Success s = Inl (Undefined SignedOverflow)"
    by (simp add: acceptHandler_def getNextConnectionId_def)
  assume next_id: "current_conn_id s \<noteq> int_max"
  let ?i = "current_conn_id s + 1"
  let ?s = "(srv_print LogNewClient s)\<lparr>current_conn_id := ?i\<rparr>"
  have ids: "peer_ids ?s = peer_ids s" by (simp add: peer_ids_def)
  have "srv_inv extra ?s"
    using inv by (auto simp: srv_inv_def ids npending_def)
  moreover have "?i \<notin> set (peer_ids ?s)" "0 < ?i" "?i \<le> current_conn_id ?s"
    using inv unfolding ids srv_inv_def by auto
  ultimately obtain s' where s': "rp_ctor ?i ?s = Inr s'" "srv_inv extra s'"
      "view s' = (view ?s)\<lparr>sp_pending := srv_pending ?s @ [PeerReadHeader ?i],
       v_flags := (v_flags (view ?s))(?i \<mapsto> (False, True))\<rparr>"
    using rp_ctor_ok extra by blast
  then show "\<exists>s'. acceptHandler em Success s = Inr s' \<and> srv_inv extra s' \<and>
        view s' = (view s)\<lparr>sp_pending := srv_pending s @ [PeerReadHeader ?i, Accept],
          sp_out := srv_out s @ [LogNewClient], sp_conn_id := ?i,
          v_flags := (v_flags (view s))(?i \<mapsto> (False, True))\<rparr>"
    using next_id view_eqD(1) [OF s'(3)]
    by (simp add: acceptHandler_def getNextConnectionId_def Let_def)
qed

end
