(* ===== verification/ServerSpec.thy ===== *)
theory ServerSpec
  imports Dispatcher
begin

text \<open>
  What the server promises, without peer objects, reference counts and
  buffers: a connection lives as long as an operation is pending on it, its
  first error is printed and closes it, and a received message is sent to
  every connection that lives, the one it came from included.
  \<open>srv_complete_refines_spec\<close> proves that the implementation does this.
\<close>

section \<open>The specification\<close>

definition spec_peers :: "srv_op list \<Rightarrow> connection_id list" where
  "spec_peers ops = sort (remdups (List.map_filter op_peer ops))"

definition errored :: "srv_log list \<Rightarrow> connection_id \<Rightarrow> bool" where
  "errored out i = list_ex (\<lambda>l. case l of LogConnectionError j msg \<Rightarrow> j = i | _ \<Rightarrow> False) out"

definition spec_take :: "nat \<Rightarrow> server_spec \<Rightarrow> server_spec" where
  "spec_take k a = a\<lparr>sp_pending := take k (sp_pending a) @ drop (Suc k) (sp_pending a)\<rparr>"

definition spec_print :: "srv_log \<Rightarrow> server_spec \<Rightarrow> server_spec" where
  "spec_print l a = a\<lparr>sp_out := sp_out a @ [l]\<rparr>"

definition spec_start :: "srv_op list \<Rightarrow> server_spec \<Rightarrow> server_spec" where
  "spec_start ops a = a\<lparr>sp_pending := sp_pending a @ ops\<rparr>"

definition spec_fail :: "connection_id \<Rightarrow> string \<Rightarrow> server_spec \<Rightarrow> server_spec" where
  "spec_fail i msg a =
     (if errored (sp_out a) i then a else spec_print (LogConnectionError i msg) a)"

definition spec_accept :: "(error_code \<Rightarrow> string) \<Rightarrow> error_code \<Rightarrow> server_spec \<Rightarrow> server_spec result" where
  "spec_accept em err a =
     (if err \<noteq> Success then Inr ((spec_print (LogAcceptFailed (em err)) a)\<lparr>sp_stopped := True\<rparr>)
      else if sp_conn_id a = int_max then Inl (Undefined SignedOverflow)
      else let i = sp_conn_id a + 1
           in Inr ((spec_start [PeerReadHeader i, Accept] (spec_print LogNewClient a))\<lparr>sp_conn_id := i\<rparr>))"

definition spec_header ::
  "(error_code \<Rightarrow> string) \<Rightarrow> error_code \<Rightarrow> connection_id \<Rightarrow> byte list \<Rightarrow> server_spec \<Rightarrow> server_spec result" where
  "spec_header em err i hdr a =
     (if err \<noteq> Success then Inr (spec_fail i (em err) a)
      else if hdr ! 0 \<noteq> 0x80 \<or> hdr ! 3 \<noteq> 0 \<or> 0x8FFF < packet_length hdr
        then Inr (spec_fail i ''Invalid packet header'' a)
      else if packet_length hdr < 4 then Inl (Throw LengthError)
      else Inr (spec_start [PeerReadBody i (packet_length hdr - 4)] a))"

definition spec_body ::
  "(error_code \<Rightarrow> string) \<Rightarrow> error_code \<Rightarrow> connection_id \<Rightarrow> byte list \<Rightarrow> connection_id list
     \<Rightarrow> server_spec \<Rightarrow> server_spec" where
  "spec_body em err i body peers a =
     (if err \<noteq> Success then spec_fail i (em err) a
      else spec_start
        (map (\<lambda>j. PeerSend j (segm_header_bytes (of_nat (length body + 4)) @ body)) peers @
          [PeerReadHeader i])
        (spec_print (LogReceivedFrom i) a))"

definition spec_complete ::
  "(error_code \<Rightarrow> string) \<Rightarrow> nat \<Rightarrow> error_code \<Rightarrow> byte list \<Rightarrow> server_spec \<Rightarrow> server_spec result" where
  "spec_complete em k err data a =
     (case sp_pending a ! k of
        Accept \<Rightarrow> spec_accept em err (spec_take k a)
      | PeerReadHeader i \<Rightarrow> spec_header em err i data (spec_take k a)
      | PeerReadBody i n \<Rightarrow>
          Inr (spec_body em err i data (spec_peers (sp_pending a)) (spec_take k a))
      | PeerSend i buf \<Rightarrow>
          Inr (if err = Success then spec_take k a else spec_fail i (em err) (spec_take k a)))"

section \<open>Representation\<close>

definition trunc :: "server_view \<Rightarrow> server_spec" where
  "trunc v = \<lparr>sp_pending = sp_pending v, sp_out = sp_out v, sp_conn_id = sp_conn_id v,
     sp_stopped = sp_stopped v\<rparr>"

definition spec_of :: "server \<Rightarrow> server_spec" where
  "spec_of s = trunc (view s)"

primrec op_ok :: "srv_op \<Rightarrow> bool" where
  "op_ok Accept = True"
| "op_ok (PeerReadHeader i) = True"
| "op_ok (PeerReadBody i n) = (n \<le> 0x8FFF - 4)"
| "op_ok (PeerSend i data) = (length data \<le> 0x8FFF)"

text \<open>
  Peers exist for the operations that are pending and for the running handler
  (\<open>X\<close>); their flags say whether their error was printed; errors are printed
  for identifiers that were given out only.
\<close>

definition view_ok :: "connection_id set \<Rightarrow> server_view \<Rightarrow> bool" where
  "view_ok X v \<longleftrightarrow>
     (\<forall>i. v_flags v i =
        (if i \<in> X \<union> set (spec_peers (sp_pending v))
         then Some (errored (sp_out v) i, \<not> errored (sp_out v) i) else None)) \<and>
     (\<forall>i. errored (sp_out v) i \<longrightarrow> i \<le> sp_conn_id v) \<and>
     (\<forall>op \<in> set (sp_pending v). op_ok op)"

definition srv_rep :: "server \<Rightarrow> bool" where
  "srv_rep s \<longleftrightarrow> srv_inv (\<lambda>_. 0) s \<and> view_ok {} (view s)"

lemma set_spec_peers: "set (spec_peers ops) = {i. \<exists>op \<in> set ops. op_peer op = Some i}"
  by (auto simp: spec_peers_def List.map_filter_def image_iff) (metis option.sel)

lemma errored_append [simp]:
  "errored (out @ [LogConnectionError j msg]) i \<longleftrightarrow> errored out i \<or> j = i"
  "errored (out @ [LogReceivedFrom j]) i = errored out i"
  "errored (out @ [LogAcceptFailed msg]) i = errored out i"
  "errored (out @ [LogNewClient]) i = errored out i"
  by (simp_all add: errored_def)

lemma errored_nil [simp]: "\<not> errored [] i"
  by (simp add: errored_def)

lemma errored_iff: "errored out i \<longleftrightarrow> (\<exists>msg. LogConnectionError i msg \<in> set out)"
  by (induction out) (auto simp: errored_def split: srv_log.splits)

lemma trunc_simps [simp]:
  "sp_pending (trunc v) = sp_pending v" "sp_out (trunc v) = sp_out v"
  "sp_conn_id (trunc v) = sp_conn_id v" "sp_stopped (trunc v) = sp_stopped v"
  "trunc (v\<lparr>sp_pending := ops\<rparr>) = (trunc v)\<lparr>sp_pending := ops\<rparr>"
  "trunc (v\<lparr>sp_out := out\<rparr>) = (trunc v)\<lparr>sp_out := out\<rparr>"
  "trunc (v\<lparr>sp_conn_id := i\<rparr>) = (trunc v)\<lparr>sp_conn_id := i\<rparr>"
  "trunc (v\<lparr>sp_stopped := b\<rparr>) = (trunc v)\<lparr>sp_stopped := b\<rparr>"
  "trunc (v\<lparr>v_flags := f\<rparr>) = trunc v"
  by (simp_all add: trunc_def)

lemmas spec_update_defs = spec_take_def spec_print_def spec_start_def

text \<open>The peers of the implementation, in the order of its map, are those of the specification.\<close>

lemma peer_ids_spec:
  assumes "srv_inv extra s" and "view_ok X (view s)" and "X \<subseteq> set (spec_peers ops)"
    and "set (spec_peers ops) = X \<union> set (spec_peers (srv_pending s))"
  shows "peer_ids s = spec_peers ops"
proof -
  have "set (peer_ids s) = set (spec_peers ops)"
    using assms(2,4) peer_ids_dom [OF assms(1)]
    by (auto simp: view_ok_def dom_def split: if_splits)
  moreover have "sorted_wrt (<) (peer_ids s)"
    using assms(1) by (simp add: srv_inv_def map_sorted_def peer_ids_def)
  moreover have "sorted_wrt (<) (spec_peers ops)"
    by (simp add: spec_peers_def strict_sorted_iff)
  ultimately show ?thesis by (intro strict_sorted_equal)
qed

section \<open>Steps of the view\<close>

text \<open>The running handler for peer \<open>i\<close>: its invariant.\<close>

definition handling :: "connection_id \<Rightarrow> server \<Rightarrow> bool" where
  "handling i s \<longleftrightarrow> srv_inv (one_more i (\<lambda>_. 0)) s \<and> view_ok {i} (view s)"

abbreviation relay_failed :: "connection_id \<Rightarrow> string \<Rightarrow> server_view \<Rightarrow> server_view" where
  "relay_failed \<equiv> failed_view (\<lambda>i msg. [LogConnectionError i msg])"

lemma view_ok_fail:
  assumes "view_ok X v" and "i \<in> X" and "i \<le> sp_conn_id v"
  shows "view_ok X (relay_failed i msg v)" and "trunc (relay_failed i msg v) = spec_fail i msg (trunc v)"
    and "sp_pending (relay_failed i msg v) = sp_pending v"
proof -
  from assms(1,2) have fl: "v_flags v i = Some (errored (sp_out v) i, \<not> errored (sp_out v) i)"
    by (simp add: view_ok_def)
  show "view_ok X (relay_failed i msg v)"
    using assms by (auto simp: failed_view_def fl view_ok_def split: option.split bool.split)
  show "trunc (relay_failed i msg v) = spec_fail i msg (trunc v)"
    by (simp add: failed_view_def fl spec_fail_def spec_print_def split: bool.split)
  show "sp_pending (relay_failed i msg v) = sp_pending v"
    by (simp add: failed_view_def fl split: bool.split)
qed

lemma view_ok_start:
  assumes "view_ok X v" and "\<forall>op \<in> set ops. op_ok op \<and> set_option (op_peer op) \<subseteq> X \<union> set (spec_peers (sp_pending v))"
  shows "view_ok X (v\<lparr>sp_pending := sp_pending v @ ops\<rparr>)"
proof -
  have "X \<union> set (spec_peers (sp_pending v @ ops)) = X \<union> set (spec_peers (sp_pending v))"
    using assms(2) by (auto simp: set_spec_peers)
  then show ?thesis using assms by (auto simp: view_ok_def)
qed

lemma view_ok_received:
  "view_ok X v \<Longrightarrow> view_ok X (v\<lparr>sp_out := sp_out v @ [LogReceivedFrom i]\<rparr>)"
  "view_ok X v \<Longrightarrow> view_ok X (v\<lparr>sp_out := sp_out v @ [LogAcceptFailed msg]\<rparr>)"
  "view_ok X v \<Longrightarrow> view_ok X (v\<lparr>sp_stopped := b\<rparr>)"
  by (simp_all add: view_ok_def)

lemma handling_facts:
  assumes "handling i s"
  shows "srv_inv (one_more i (\<lambda>_. 0)) s" and "view_ok {i} (view s)" and "i \<in> set (peer_ids s)"
    and "i \<le> current_conn_id s"
proof -
  from assms show inv: "srv_inv (one_more i (\<lambda>_. 0)) s" and v: "view_ok {i} (view s)"
    by (simp_all add: handling_def)
  from v have "v_flags (view s) i \<noteq> None" by (simp add: view_ok_def)
  then show mem: "i \<in> set (peer_ids s)" by (auto simp: peer_ids_dom [OF inv])
  show "i \<le> current_conn_id s" using inv mem by (simp add: srv_inv_def)
qed

text \<open>The handler starts.\<close>

lemma take_handling:
  assumes "srv_rep s" and "k < length (srv_pending s)" and "op_peer (srv_pending s ! k) = Some i"
  shows "handling i (srv_take k s)" and "spec_of (srv_take k s) = spec_take k (spec_of s)"
    and "set (spec_peers (srv_pending s)) = {i} \<union> set (spec_peers (srv_pending (srv_take k s)))"
proof -
  have split: "srv_pending s = take k (srv_pending s) @ srv_pending s ! k # drop (Suc k) (srv_pending s)"
    by (rule id_take_nth_drop [OF assms(2)])
  show peers: "set (spec_peers (srv_pending s)) = {i} \<union> set (spec_peers (srv_pending (srv_take k s)))"
    unfolding srv_take_def by (subst split) (use assms(3) in \<open>auto simp: set_spec_peers\<close>)
  have sub: "set (srv_pending (srv_take k s)) \<subseteq> set (srv_pending s)"
    using set_take_subset [of k "srv_pending s"] set_drop_subset [of "Suc k" "srv_pending s"]
    by (auto simp: srv_take_def)
  from assms(1) have "srv_inv (\<lambda>_. 0) s" and v: "view_ok {} (view s)" by (simp_all add: srv_rep_def)
  from srv_inv_remove_op [OF this(1) assms(2,3)]
  have "srv_inv (one_more i (\<lambda>_. 0)) (srv_take k s)" by (simp add: srv_take_def)
  moreover have "view_ok {i} (view (srv_take k s))"
    using v peers sub by (auto simp: view_ok_def srv_take_def)
  ultimately show "handling i (srv_take k s)" by (simp add: handling_def)
  show "spec_of (srv_take k s) = spec_take k (spec_of s)"
    by (simp add: spec_of_def srv_take_def spec_take_def)
qed

text \<open>The handler returns.\<close>

lemma release_refines:
  assumes "handling i s" and "length (srv_pending s) < 2 ^ 32"
  shows "\<exists>s'. rp_release (handleServerEvent host) i s = Inr s' \<and> srv_rep s' \<and> spec_of s' = spec_of s"
proof -
  note h = handling_facts [OF assms(1)]
  from relay.rp_release_ok [OF h(1,3) assms(2), of host]
  obtain s' where s': "rp_release (handleServerEvent host) i s = Inr s'" "srv_inv (\<lambda>_. 0) s'"
      "view s' = (if npending i s = 0 then (view s)\<lparr>v_flags := (v_flags (view s))(i := None)\<rparr> else view s)"
    by blast
  have np: "npending i s = 0 \<longleftrightarrow> i \<notin> set (spec_peers (srv_pending s))"
    by (auto simp: npending_def set_spec_peers filter_empty_conv)
  have "view_ok {} (view s')"
    using h(2) np by (auto simp: s'(3) view_ok_def insert_absorb)
  with s' show ?thesis by (auto simp: srv_rep_def spec_of_def)
qed

text \<open>A handler that keeps \<open>handling\<close> and does what the specification says.\<close>

lemma handler_refines:
  assumes "\<exists>s2. h = Inr s2 \<and> srv_inv (one_more i (\<lambda>_. 0)) s2 \<and> view s2 = w"
    and "view_ok {i} w" and "trunc w = a" and "length (sp_pending w) < 2 ^ 32"
  shows "\<exists>s'. rbind h (rp_release (handleServerEvent host) i) = Inr s' \<and> srv_rep s' \<and> spec_of s' = a"
proof -
  from assms(1) obtain s2 where s2: "h = Inr s2" "srv_inv (one_more i (\<lambda>_. 0)) s2" "view s2 = w"
    by blast
  with assms(2) have "handling i s2" by (simp add: handling_def)
  from release_refines [OF this, of host] s2 assms(3,4) view_eqD(1) [OF s2(3)] show ?thesis
    by (auto simp: spec_of_def)
qed

section \<open>Refinement\<close>

fun refines :: "server result \<Rightarrow> server_spec result \<Rightarrow> bool" where
  "refines (Inr s) (Inr a) \<longleftrightarrow> srv_rep s \<and> spec_of s = a"
| "refines (Inl f) (Inl g) \<longleftrightarrow> f = g"
| "refines _ _ \<longleftrightarrow> False"

lemma refines_Inr: "\<exists>s'. r = Inr s' \<and> srv_rep s' \<and> spec_of s' = a \<Longrightarrow> refines r (Inr a)"
  by auto

lemma length_spec_peers: "length (spec_peers ops) \<le> length ops"
proof -
  have "length (List.map_filter f xs) \<le> length xs" for f :: "srv_op \<Rightarrow> connection_id option" and xs
    by (simp add: List.map_filter_def)
  then show ?thesis
    unfolding spec_peers_def by (metis length_remdups_leq le_trans length_sort)
qed

lemma accept_refines:
  assumes "srv_rep s" and "k < length (srv_pending s)" and "srv_pending s ! k = Accept"
  shows "refines (acceptHandler em err (srv_take k s)) (spec_accept em err (spec_take k (spec_of s)))"
proof -
  let ?s = "srv_take k s"
  from assms(1) have inv: "srv_inv (\<lambda>_. 0) s" and v: "view_ok {} (view s)" by (simp_all add: srv_rep_def)
  have inv': "srv_inv (\<lambda>_. 0) ?s"
    using srv_inv_remove_accept [OF inv assms(2)] assms(3) by (simp add: srv_take_def)
  have split: "srv_pending s = take k (srv_pending s) @ srv_pending s ! k # drop (Suc k) (srv_pending s)"
    by (rule id_take_nth_drop [OF assms(2)])
  have peers: "set (spec_peers (srv_pending s)) = set (spec_peers (srv_pending ?s))"
    unfolding srv_take_def by (subst split) (use assms(3) in \<open>auto simp: set_spec_peers\<close>)
  have sub: "set (srv_pending ?s) \<subseteq> set (srv_pending s)"
    using set_take_subset [of k "srv_pending s"] set_drop_subset [of "Suc k" "srv_pending s"]
    by (auto simp: srv_take_def)
  have v': "view_ok {} (view ?s)"
    using v peers sub by (auto simp: view_ok_def srv_take_def)
  have spec: "spec_take k (spec_of s) = trunc (view ?s)"
    by (simp add: spec_of_def srv_take_def spec_take_def)
  show ?thesis
  proof (cases "err = Success")
    case False
    have "view_ok {} ((view ?s)\<lparr>sp_out := srv_out ?s @ [LogAcceptFailed (em err)], sp_stopped := True\<rparr>)"
      using view_ok_received(3) [OF view_ok_received(2) [OF v']] by simp
    with False inv' show ?thesis
      by (simp add: acceptHandler_def spec_accept_def spec [unfolded spec_of_def] spec_print_def srv_rep_def spec_of_def)
  next
    case True
    show ?thesis
    proof (cases "current_conn_id ?s = int_max")
      case True
      with \<open>err = Success\<close> acceptHandler_ok(1) [OF inv'] show ?thesis
        by (simp add: spec_accept_def spec)
    next
      case False
      let ?i = "current_conn_id ?s + 1"
      from acceptHandler_ok(2) [OF inv' _ False] obtain s' where
          s': "acceptHandler em Success ?s = Inr s'" "srv_inv (\<lambda>_. 0) s'"
            "view s' = (view ?s)\<lparr>sp_pending := srv_pending ?s @ [PeerReadHeader ?i, Accept],
              sp_out := srv_out ?s @ [LogNewClient], sp_conn_id := ?i,
              v_flags := (v_flags (view ?s))(?i \<mapsto> (False, True))\<rparr>"
        by blast
      have "\<not> errored (srv_out ?s) ?i" using v' by (force simp: view_ok_def)
      then have "view_ok {} (view s')"
        using v' by (force simp: view_ok_def s'(3) set_spec_peers)
      with s' False True show ?thesis
        by (simp add: spec_accept_def spec [unfolded spec_of_def] spec_print_def spec_start_def srv_rep_def spec_of_def Let_def)
    qed
  qed
qed

lemma send_refines:
  assumes "handling i s" and "length (srv_pending s) < 2 ^ 32"
  shows "refines
     (rbind (sendHandler em (handleServerEvent host) err n i buf s) (rp_release (handleServerEvent host) i))
     (Inr (if err = Success then spec_of s else spec_fail i (em err) (spec_of s)))"
proof -
  note h = handling_facts [OF assms(1)]
  show ?thesis
    by (rule refines_Inr, rule handler_refines [OF relay.sendHandler_ok [OF h(1,3)]])
      (use h view_ok_fail [OF h(2)] assms(2) in \<open>simp_all add: spec_of_def\<close>)
qed

lemma body_refines:
  assumes "handling i s" and "length data \<le> 0x8FFF - 4"
    and "peer_ids s = peers" and "length (srv_pending s) + length peers + 1 < 2 ^ 32"
    and "set peers = {i} \<union> set (spec_peers (srv_pending s))"
  shows "refines
     (rbind (rcvBodyHandler em (handleServerEvent host) err n i data s) (rp_release (handleServerEvent host) i))
     (Inr (spec_body em err i data peers (spec_of s)))"
proof -
  note h = handling_facts [OF assms(1)]
  have len: "length data + 4 \<le> vector_max_size"
    using assms(2) by (simp add: vector_max_size_def)
  have wire: "segm_wire sd_view (sd_of_block data) = segm_header_bytes (of_nat (length data + 4)) @ data"
    by (simp add: segm_wire_def segm_header_length_def)
  let ?ops = "map (\<lambda>j. PeerSend j (segm_wire sd_view (sd_of_block data))) peers @ [PeerReadHeader i]"
  have ok: "view_ok {i} ((view s)\<lparr>sp_out := srv_out s @ [LogReceivedFrom i],
      sp_pending := srv_pending s @ ?ops\<rparr>)"
    using view_ok_start [OF view_ok_received(1) [OF h(2), of i], of ?ops] assms(2,5)
    by (auto simp: wire segm_header_bytes_def)
  show ?thesis
    by (rule refines_Inr, rule handler_refines [OF relay.rcvBodyHandler_ok [OF h(1,3) len]])
      (use h view_ok_fail [OF h(2)] ok assms(3,4) in
        \<open>simp_all add: spec_body_def spec_of_def spec_print_def spec_start_def wire\<close>)
qed

lemma header_refines:
  assumes "handling i s" and "length (srv_pending s) + 1 < 2 ^ 32"
    and "length data \<le> 4" and "err = Success \<longrightarrow> length data = 4"
  shows "refines
     (rbind (receive_into_header i data s) (\<lambda>s.
      rbind (rcvHeaderHandler host em (handleServerEvent host) err n i s)
        (rp_release (handleServerEvent host) i)))
     (spec_header em err i data (spec_of s))"
proof -
  let ?cb = "handleServerEvent host"
  note h = handling_facts [OF assms(1)]
  from h(1,3) obtain p where p: "map_of (peers_list s) i = Some p"
      "peer_inv i (npending i s + one_more i (\<lambda>_. 0) i) p"
    by (rule srv_inv_peer)
  let ?q = "p\<lparr>rp_header_buffer := overwrite data (rp_header_buffer p)\<rparr>"
  let ?t = "put_peer i ?q s"
  have recv: "receive_into_header i data s = Inr ?t"
    by (simp add: receive_into_header_def with_peer_def p(1))
  have view_t: "view ?t = view s"
    by (rule view_put_same [OF h(1) p(1)]) (simp add: peer_flags_def)
  have inv_t: "srv_inv (one_more i (\<lambda>_. 0)) ?t"
    by (rule srv_inv_put [OF h(1,3)])
      (use p(2) assms(3) in \<open>simp_all add: peer_inv_def overwrite_def segm_header_length_def\<close>)
  have q: "map_of (peers_list ?t) i = Some ?q"
    using h(1) by (simp add: srv_inv_def put_peer_def map_of_put)
  have spec_t: "trunc (view s) = spec_of s" by (simp add: spec_of_def)
  note fails = view_ok_fail [OF h(2), simplified]
  show ?thesis
  proof (cases "err = Success")
    case False
    from handler_refines [OF relay.rcvHeaderHandler_ok(2) [OF inv_t q False, unfolded view_t]] fails h assms(2)
    have "\<exists>s'. rbind (rcvHeaderHandler host em ?cb err n i ?t) (rp_release ?cb i) = Inr s' \<and>
        srv_rep s' \<and> spec_of s' = spec_fail i (em err) (spec_of s)"
      by (simp add: spec_of_def)
    with False show ?thesis by (auto simp: recv spec_header_def)
  next
    case True
    with assms(4) have len: "length data = 4" by simp
    then have buf: "rp_header_buffer ?q = data"
      using p(2) by (simp add: overwrite_def peer_inv_def segm_header_length_def)
    note cases = body_buffer_cases [OF len, of host InvalidHeaderError,
        unfolded unat_word_of_le_two, folded packet_length_def]
    note handler = relay.rcvHeaderHandler_ok(1) [OF inv_t q, of err host em host n, unfolded buf view_t]
    consider (bad) "data ! 0 \<noteq> 0x80 \<or> data ! 3 \<noteq> 0 \<or> 0x8FFF < packet_length data"
      | (short) "\<not> (data ! 0 \<noteq> 0x80 \<or> data ! 3 \<noteq> 0 \<or> 0x8FFF < packet_length data)" "packet_length data < 4"
      | (ok) "\<not> (data ! 0 \<noteq> 0x80 \<or> data ! 3 \<noteq> 0 \<or> 0x8FFF < packet_length data)" "4 \<le> packet_length data"
      by linarith
    then show ?thesis
    proof cases
      case bad
      with cases have "body_buffer host InvalidHeaderError data = Inl (Throw InvalidHeaderError)"
        by (auto simp: Let_def)
      with handler True have "\<exists>s'. rcvHeaderHandler host em ?cb err n i ?t = Inr s' \<and>
          srv_inv (one_more i (\<lambda>_. 0)) s' \<and>
          view s' = relay_failed i (exn_what InvalidHeaderError) (view s)"
        by simp
      from handler_refines [OF this, of _ host] fails h assms(2)
      have "\<exists>s'. rbind (rcvHeaderHandler host em ?cb err n i ?t) (rp_release ?cb i) = Inr s' \<and>
          srv_rep s' \<and> spec_of s' = spec_fail i (exn_what InvalidHeaderError) (spec_of s)"
        by (simp add: spec_of_def)
      with True bad show ?thesis by (auto simp: recv spec_header_def)
    next
      case short
      with cases have "body_buffer host InvalidHeaderError data = Inl (Throw LengthError)"
        by (auto simp: Let_def)
      with handler True have "rcvHeaderHandler host em ?cb err n i ?t = Inl (Throw LengthError)" by simp
      with True short show ?thesis by (simp add: recv spec_header_def)
    next
      case ok
      with cases have "body_buffer host InvalidHeaderError data = Inr (replicate (packet_length data - 4) 0)"
        by (auto simp: Let_def)
      with handler True have "\<exists>s'. rcvHeaderHandler host em ?cb err n i ?t = Inr s' \<and>
          srv_inv (one_more i (\<lambda>_. 0)) s' \<and>
          view s' = (view s)\<lparr>sp_pending := srv_pending s @ [PeerReadBody i (packet_length data - 4)]\<rparr>"
        by simp
      moreover have "view_ok {i} ((view s)\<lparr>sp_pending := srv_pending s @ [PeerReadBody i (packet_length data - 4)]\<rparr>)"
      proof -
        have "packet_length data - 4 \<le> 0x8FFF - 4" using ok by linarith
        with view_ok_start [OF h(2), of "[PeerReadBody i (packet_length data - 4)]"] show ?thesis by simp
      qed
      ultimately have "\<exists>s'. rbind (rcvHeaderHandler host em ?cb err n i ?t) (rp_release ?cb i) = Inr s' \<and>
          srv_rep s' \<and> spec_of s' =
            trunc ((view s)\<lparr>sp_pending := srv_pending s @ [PeerReadBody i (packet_length data - 4)]\<rparr>)"
        by (rule handler_refines) (use assms(2) in simp_all)
      then have "\<exists>s'. rbind (rcvHeaderHandler host em ?cb err n i ?t) (rp_release ?cb i) = Inr s' \<and>
          srv_rep s' \<and> spec_of s' = spec_start [PeerReadBody i (packet_length data - 4)] (spec_of s)"
        by (simp add: spec_of_def spec_start_def)
      with True ok show ?thesis by (auto simp: recv spec_header_def)
    qed
  qed
qed

text \<open>The server implements its specification, one completion at a time.\<close>

lemma srv_complete_refines_spec:
  assumes "srv_rep s" and "completion_ok k err data s" and "few_operations s"
  shows "refines (srv_complete host em k err data s) (spec_complete em k err data (spec_of s))"
proof -
  from assms(2) have k: "k < length (srv_pending s)" and d: "op_delivers (srv_pending s ! k) err data"
    by (simp_all add: completion_ok_def)
  have pend: "sp_pending (spec_of s) = srv_pending s" by (simp add: spec_of_def)
  have few: "length (srv_pending s) < 2 ^ 31" using assms(3) by (simp add: few_operations_def)
  have shorter: "length (srv_pending (srv_take k s)) = length (srv_pending s) - 1"
    using k by (simp add: srv_take_def)
  show ?thesis
  proof (cases "srv_pending s ! k")
    case Accept
    with accept_refines [OF assms(1) k] show ?thesis
      by (simp add: srv_complete_def spec_complete_def pend Let_def)
  next
    case (PeerReadHeader i)
    note tk = take_handling [OF assms(1) k, of i]
    have "length (srv_pending (srv_take k s)) + 1 < 2 ^ 32" using shorter few by simp
    from header_refines [OF tk(1) this, of data err host em "length data"] PeerReadHeader tk(2) d
    show ?thesis
      by (simp add: srv_complete_def spec_complete_def pend segm_header_length_def Let_def)
  next
    case (PeerReadBody i n)
    note tk = take_handling [OF assms(1) k, of i]
    let ?peers = "spec_peers (srv_pending s)"
    have "n \<le> 0x8FFF - 4"
      using assms(1) k PeerReadBody by (force simp: srv_rep_def view_ok_def dest: nth_mem)
    with d PeerReadBody have len: "length (overwrite data (replicate n 0)) \<le> 0x8FFF - 4"
      by (simp add: overwrite_def)
    have hd: "handling i (srv_take k s)" using tk(1) PeerReadBody by simp
    have mem: "set ?peers = {i} \<union> set (spec_peers (srv_pending (srv_take k s)))"
      using tk(3) PeerReadBody by simp
    have ids: "peer_ids (srv_take k s) = ?peers"
      using peer_ids_spec [OF handling_facts(1,2) [OF hd] _ mem] mem by blast
    have "length ?peers \<le> length (srv_pending s)" by (rule length_spec_peers)
    with shorter few k have "length (srv_pending (srv_take k s)) + length ?peers + 1 < 2 ^ 32" by simp
    from body_refines [OF hd len ids this mem, of em host err "length data"] tk(2) PeerReadBody d
    show ?thesis
      by (auto simp: srv_complete_def spec_complete_def pend spec_body_def overwrite_def Let_def)
  next
    case (PeerSend i buf)
    note tk = take_handling [OF assms(1) k, of i]
    have "length (srv_pending (srv_take k s)) < 2 ^ 32" using shorter few by simp
    from send_refines [OF tk(1) this, of em host err "length data" buf] PeerSend tk(2) show ?thesis
      by (cases "err = Success") (simp_all add: srv_complete_def spec_complete_def pend Let_def)
  qed
qed

section \<open>Reachable states\<close>

inductive srv_step :: "endianness \<Rightarrow> (error_code \<Rightarrow> string) \<Rightarrow> server \<Rightarrow> server \<Rightarrow> bool"
  for host em where
  complete: "completion_ok k err data s \<Longrightarrow> few_operations s \<Longrightarrow>
    srv_complete host em k err data s = Inr s' \<Longrightarrow> srv_step host em s s'"

inductive srv_reachable :: "endianness \<Rightarrow> (error_code \<Rightarrow> string) \<Rightarrow> server \<Rightarrow> bool"
  for host em where
  start: "srv_reachable host em srv_ctor"
| step: "srv_reachable host em s \<Longrightarrow> srv_step host em s s' \<Longrightarrow> srv_reachable host em s'"

inductive_cases srv_stepE: "srv_step host em s s'"

lemma srv_rep_ctor: "srv_rep srv_ctor"
  by (simp add: srv_rep_def srv_inv_def srv_ctor_def startAccept_def map_sorted_def map_keys_def
      view_ok_def view_def peer_ids_def spec_peers_def List.map_filter_def)

lemma srv_step_refines:
  assumes "srv_rep s" and "completion_ok k err data s" and "few_operations s"
    and "srv_complete host em k err data s = Inr s'"
  shows "srv_rep s'" and "spec_complete em k err data (spec_of s) = Inr (spec_of s')"
  using srv_complete_refines_spec [OF assms(1-3), of host em] assms(4)
  by (cases "spec_complete em k err data (spec_of s)", simp_all)+

lemma srv_reachable_rep: "srv_reachable host em s \<Longrightarrow> srv_rep s"
proof (induction rule: srv_reachable.induct)
  case start
  then show ?case by (rule srv_rep_ctor)
next
  case (step s s')
  then show ?case by (auto elim!: srv_stepE intro: srv_step_refines(1))
qed

end
