(* ===== verification/ServerInv.thy ===== *)
theory ServerInv
  imports ServerSpec
begin

text \<open>
  Invariants of the server, proved on the specification of \<open>ServerSpec\<close> and
  carried over to the reachable states of the implementation.
\<close>

section \<open>Invariants of the specification\<close>

definition is_read :: "connection_id \<Rightarrow> srv_op \<Rightarrow> bool" where
  "is_read i op = (case op of PeerReadHeader j \<Rightarrow> j = i | PeerReadBody j n \<Rightarrow> j = i | _ \<Rightarrow> False)"

definition reads :: "connection_id \<Rightarrow> srv_op list \<Rightarrow> nat" where
  "reads i ops = length (filter (is_read i) ops)"

definition accepts :: "srv_op list \<Rightarrow> nat" where
  "accepts ops = length (filter (\<lambda>op. op = Accept) ops)"

definition error_reports :: "connection_id \<Rightarrow> srv_log list \<Rightarrow> nat" where
  "error_reports i out =
     length (filter (\<lambda>l. case l of LogConnectionError j msg \<Rightarrow> j = i | _ \<Rightarrow> False) out)"

text \<open>
  One accept is pending until the service stops; a connection has at most one
  read pending, and exactly one as long as it had no error; its error is
  reported once; identifiers of pending operations were given out before.
\<close>

definition spec_inv :: "server_spec \<Rightarrow> bool" where
  "spec_inv a \<longleftrightarrow>
     accepts (sp_pending a) = (if sp_stopped a then 0 else 1) \<and>
     (\<forall>i. reads i (sp_pending a) \<le> 1) \<and>
     (\<forall>i. 0 < i \<and> i \<le> sp_conn_id a \<and> \<not> errored (sp_out a) i \<longrightarrow> reads i (sp_pending a) = 1) \<and>
     (\<forall>i. error_reports i (sp_out a) = (if errored (sp_out a) i then 1 else 0)) \<and>
     (\<forall>op \<in> set (sp_pending a). \<forall>i. op_peer op = Some i \<longrightarrow> 0 < i \<and> i \<le> sp_conn_id a) \<and>
     (\<forall>i. errored (sp_out a) i \<longrightarrow> 0 < i \<and> i \<le> sp_conn_id a) \<and> 0 \<le> sp_conn_id a"

lemma counts_take:
  assumes "k < length ops"
  shows "reads i (take k ops @ drop (Suc k) ops) = reads i ops - (if is_read i (ops ! k) then 1 else 0)"
    and "accepts (take k ops @ drop (Suc k) ops) = accepts ops - (if ops ! k = Accept then 1 else 0)"
    and "is_read i (ops ! k) \<Longrightarrow> 0 < reads i ops"
  using filter_remove_nth [OF assms, of "is_read i"] filter_remove_nth [OF assms, of "\<lambda>op. op = Accept"]
  by (simp_all add: reads_def accepts_def)

lemma counts_append:
  "reads i (ops @ ops') = reads i ops + reads i ops'"
  "accepts (ops @ ops') = accepts ops + accepts ops'"
  "error_reports i (out @ out') = error_reports i out + error_reports i out'"
  by (simp_all add: reads_def accepts_def error_reports_def)

lemma counts_simps [simp]:
  "reads i [] = 0" "accepts [] = 0" "error_reports i [] = 0"
  "reads i (op # ops) = (if is_read i op then 1 else 0) + reads i ops"
  "accepts (op # ops) = (if op = Accept then 1 else 0) + accepts ops"
  "error_reports i [LogConnectionError j msg] = (if j = i then 1 else 0)"
  "error_reports i [LogReceivedFrom j] = 0"
  "error_reports i [LogAcceptFailed msg] = 0"
  "error_reports i [LogNewClient] = 0"
  "is_read i Accept = False" "is_read i (PeerReadHeader j) = (j = i)"
  "is_read i (PeerReadBody j n) = (j = i)" "is_read i (PeerSend j data) = False"
  by (simp_all add: reads_def accepts_def error_reports_def is_read_def)

lemma counts_sends [simp]:
  "reads i (map (\<lambda>j. PeerSend j data) peers) = 0"
  "accepts (map (\<lambda>j. PeerSend j data) peers) = 0"
  by (induction peers) simp_all

text \<open>Every step of the specification keeps the invariant.\<close>

lemma spec_inv_fail:
  assumes "spec_inv a" and "0 < i" and "i \<le> sp_conn_id a"
  shows "spec_inv (spec_fail i msg a)"
  using assms by (auto simp: spec_inv_def spec_fail_def spec_print_def counts_append)

lemma spec_inv_take:
  assumes inv: "spec_inv a" and k: "k < length (sp_pending a)"
    and op: "op_peer (sp_pending a ! k) = Some i"
  defines "b \<equiv> spec_take k a"
  shows "accepts (sp_pending b) = accepts (sp_pending a)"
    and "reads j (sp_pending b) = reads j (sp_pending a) - (if is_read j (sp_pending a ! k) then 1 else 0)"
    and "0 < i" "i \<le> sp_conn_id a"
    and "\<forall>op \<in> set (sp_pending b). \<forall>i. op_peer op = Some i \<longrightarrow> 0 < i \<and> i \<le> sp_conn_id a"
proof -
  show "accepts (sp_pending b) = accepts (sp_pending a)"
    using op by (auto simp: b_def spec_take_def counts_take [OF k])
  show "reads j (sp_pending b) = reads j (sp_pending a) - (if is_read j (sp_pending a ! k) then 1 else 0)"
    by (simp add: b_def spec_take_def counts_take [OF k])
  from inv op k show "0 < i" "i \<le> sp_conn_id a" by (auto simp: spec_inv_def)
  have "set (sp_pending b) \<subseteq> set (sp_pending a)"
    using set_take_subset [of k "sp_pending a"] set_drop_subset [of "Suc k" "sp_pending a"]
    by (auto simp: b_def spec_take_def)
  with inv show "\<forall>op \<in> set (sp_pending b). \<forall>i. op_peer op = Some i \<longrightarrow> 0 < i \<and> i \<le> sp_conn_id a"
    by (auto simp: spec_inv_def)
qed

text \<open>The invariant while the read of peer \<open>i\<close> is being handled.\<close>

definition spec_inv_reading :: "connection_id \<Rightarrow> server_spec \<Rightarrow> bool" where
  "spec_inv_reading i a \<longleftrightarrow> reads i (sp_pending a) = 0 \<and> 0 < i \<and> i \<le> sp_conn_id a \<and>
     spec_inv (a\<lparr>sp_pending := sp_pending a @ [PeerReadHeader i]\<rparr>)"

lemma spec_inv_reading_le:
  assumes "spec_inv_reading i a"
  shows "reads j (sp_pending a) \<le> Suc 0"
proof (cases "j = i")
  case True
  with assms show ?thesis by (simp add: spec_inv_reading_def)
next
  case False
  from assms have "reads j (sp_pending a @ [PeerReadHeader i]) \<le> 1"
    by (simp add: spec_inv_reading_def spec_inv_def)
  with False show ?thesis by (simp add: counts_append)
qed

lemma spec_inv_reading_fail:
  assumes "spec_inv_reading i a"
  shows "spec_inv (spec_fail i msg a)"
  using assms spec_inv_reading_le [OF assms]
  by (auto simp: spec_inv_reading_def spec_inv_def spec_fail_def spec_print_def counts_append
      split: if_splits)

lemma spec_inv_reading_start:
  assumes "spec_inv_reading i a" and "is_read i op" and "op_peer op = Some i"
    and "\<forall>op \<in> set ops. \<exists>j d. op = PeerSend j d \<and> 0 < j \<and> j \<le> sp_conn_id a"
  shows "spec_inv (spec_start (ops @ [op]) a)"
proof -
  have zero: "reads j ops = 0" "accepts ops = 0" for j
    using assms(4) by (induction ops) auto
  have single: "is_read j op \<longleftrightarrow> j = i" "op \<noteq> Accept" for j
    using assms(2,3) by (cases op, auto)+
  show ?thesis
    using assms(1,3,4) spec_inv_reading_le [OF assms(1)]
    by (auto simp: spec_inv_reading_def spec_inv_def spec_start_def counts_append zero single)
qed

lemma spec_inv_received:
  "spec_inv_reading i a \<Longrightarrow> spec_inv_reading i (spec_print (LogReceivedFrom j) a)"
  by (simp add: spec_inv_reading_def spec_inv_def spec_print_def counts_append)

lemma take_reading:
  assumes inv: "spec_inv a" and k: "k < length (sp_pending a)"
    and op: "op_peer (sp_pending a ! k) = Some i" and rd: "is_read i (sp_pending a ! k)"
  shows "spec_inv_reading i (spec_take k a)"
proof -
  note tk = spec_inv_take [OF inv k op]
  have rd': "is_read j (sp_pending a ! k) \<longleftrightarrow> j = i" for j
    using rd op by (cases "sp_pending a ! k") auto
  have "reads i (sp_pending a) \<le> 1" using inv by (simp add: spec_inv_def)
  with counts_take(3) [OF k rd] have "reads i (sp_pending a) = 1" by simp
  moreover have "sp_out (spec_take k a) = sp_out a" "sp_conn_id (spec_take k a) = sp_conn_id a"
      "sp_stopped (spec_take k a) = sp_stopped a"
    by (simp_all add: spec_take_def)
  ultimately show ?thesis
    using tk inv by (auto simp: spec_inv_reading_def spec_inv_def counts_append rd')
qed

lemma spec_accept_inv:
  assumes inv: "spec_inv a" and k: "k < length (sp_pending a)" and "\<not> sp_stopped a"
    and op: "sp_pending a ! k = Accept" and res: "spec_accept em err (spec_take k a) = Inr a'"
  shows "spec_inv a'"
proof -
  let ?b = "spec_take k a"
  have sub: "set (sp_pending ?b) \<subseteq> set (sp_pending a)"
    using set_take_subset [of k "sp_pending a"] set_drop_subset [of "Suc k" "sp_pending a"]
    by (auto simp: spec_take_def)
  have counts: "accepts (sp_pending ?b) = 0" "reads i (sp_pending ?b) = reads i (sp_pending a)" for i
    using inv assms(3) by (simp_all add: spec_take_def counts_take [OF k] op spec_inv_def)
  have fields: "sp_out ?b = sp_out a" "sp_conn_id ?b = sp_conn_id a" "sp_stopped ?b = sp_stopped a"
    by (simp_all add: spec_take_def)
  show ?thesis
  proof (cases "err = Success")
    case False
    with res have "a' = (spec_print (LogAcceptFailed (em err)) ?b)\<lparr>sp_stopped := True\<rparr>"
      by (simp add: spec_accept_def)
    then show ?thesis
      using inv counts fields sub by (auto simp: spec_inv_def spec_print_def counts_append)
  next
    case True
    let ?i = "sp_conn_id a + 1"
    from True res have a': "a' = (spec_start [PeerReadHeader ?i, Accept] (spec_print LogNewClient ?b))\<lparr>sp_conn_id := ?i\<rparr>"
      by (simp add: spec_accept_def Let_def fields split: if_splits)
    have "reads ?i (sp_pending a) = 0"
      using inv by (force simp: reads_def spec_inv_def filter_empty_conv is_read_def split: srv_op.splits)
    then have new: "reads j (sp_pending a') = reads j (sp_pending a) + (if j = ?i then 1 else 0)"
        "reads ?i (sp_pending a) = 0" "accepts (sp_pending a') = 1" for j
      using counts by (auto simp: a' spec_start_def spec_print_def counts_append)
    have same: "errored (sp_out a') j = errored (sp_out a) j"
        "error_reports j (sp_out a') = error_reports j (sp_out a)"
        "sp_conn_id a' = ?i" "\<not> sp_stopped a'" for j
      using fields assms(3) by (simp_all add: a' spec_start_def spec_print_def counts_append)
    have ids: "0 < j \<and> j \<le> ?i" if "op \<in> set (sp_pending a')" "op_peer op = Some j" for op j
    proof -
      have "op \<in> set (sp_pending a) \<or> j = ?i"
        using that sub by (auto simp: a' spec_start_def spec_print_def)
      with that(2) inv show ?thesis by (auto simp: spec_inv_def)
    qed
    have le: "reads j (sp_pending a') \<le> 1" for j
      using inv new(1) [of j] new(2) by (cases "j = ?i") (simp_all add: spec_inv_def)
    have one: "reads j (sp_pending a') = 1" if "0 < j \<and> j \<le> ?i \<and> \<not> errored (sp_out a') j" for j
      using that inv new(1) [of j] new(2) same(1) [of j]
      by (cases "j = ?i") (simp_all add: spec_inv_def)
    show ?thesis
      unfolding spec_inv_def same using inv new(3) le one ids
      by (auto simp: spec_inv_def same)
  qed
qed

lemma spec_complete_inv:
  assumes inv: "spec_inv a" and k: "k < length (sp_pending a)" and run: "\<not> sp_stopped a"
    and res: "spec_complete em k err data a = Inr a'"
  shows "spec_inv a'"
proof (cases "sp_pending a ! k")
  case Accept
  with res spec_accept_inv [OF inv k run] show ?thesis by (simp add: spec_complete_def)
next
  case (PeerReadHeader i)
  then have rd: "spec_inv_reading i (spec_take k a)" by (intro take_reading [OF inv k]) simp_all
  from PeerReadHeader res show ?thesis
    using spec_inv_reading_fail [OF rd]
      spec_inv_reading_start [OF rd, of "PeerReadBody i (packet_length data - 4)" "[]"]
    by (auto simp: spec_complete_def spec_header_def split: if_splits)
next
  case (PeerReadBody i n)
  then have rd: "spec_inv_reading i (spec_take k a)" by (intro take_reading [OF inv k]) simp_all
  have peers: "0 < j \<and> j \<le> sp_conn_id (spec_take k a)" if "j \<in> set (spec_peers (sp_pending a))" for j
    using that inv by (auto simp: set_spec_peers spec_inv_def spec_take_def)
  let ?sends = "map (\<lambda>j. PeerSend j (segm_header_bytes (of_nat (length data + 4)) @ data))
      (spec_peers (sp_pending a))"
  have "spec_inv (spec_start (?sends @ [PeerReadHeader i]) (spec_print (LogReceivedFrom i) (spec_take k a)))"
    by (rule spec_inv_reading_start [OF spec_inv_received [OF rd]])
      (use peers in \<open>auto simp: spec_print_def\<close>)
  with PeerReadBody res spec_inv_reading_fail [OF rd] show ?thesis
    by (auto simp: spec_complete_def spec_body_def split: if_splits)
next
  case (PeerSend i buf)
  then have op: "op_peer (sp_pending a ! k) = Some i" by simp
  note tk = spec_inv_take [OF inv k op]
  have fields: "sp_out (spec_take k a) = sp_out a" "sp_conn_id (spec_take k a) = sp_conn_id a"
      "sp_stopped (spec_take k a) = sp_stopped a"
    by (simp_all add: spec_take_def)
  have "spec_inv (spec_take k a)"
    using inv tk fields PeerSend by (auto simp: spec_inv_def)
  with PeerSend res spec_inv_fail [OF this tk(3)] tk(4) fields show ?thesis
    by (auto simp: spec_complete_def split: if_splits)
qed

lemma srv_reachable_spec_inv: "srv_reachable host em s \<Longrightarrow> spec_inv (spec_of s)"
proof (induction rule: srv_reachable.induct)
  case start
  then show ?case
    by (simp add: spec_of_def trunc_def view_def srv_ctor_def startAccept_def spec_inv_def)
next
  case (step s s')
  from step(2) obtain k err data where c: "completion_ok k err data s" "few_operations s"
      "srv_complete host em k err data s = Inr s'"
    by (elim srv_stepE)
  from srv_step_refines(2) [OF srv_reachable_rep [OF step(1)] c]
  have "spec_complete em k err data (spec_of s) = Inr (spec_of s')" .
  moreover have "k < length (sp_pending (spec_of s))" "\<not> sp_stopped (spec_of s)"
    using c(1) by (simp_all add: completion_ok_def spec_of_def)
  ultimately show ?case using spec_complete_inv [OF step(3)] by blast
qed

lemma not_read_send: "op_peer op = Some i \<Longrightarrow> is_read i op \<or> (\<exists>data. op = PeerSend i data)"
  by (cases op) auto

section \<open>Concrete states\<close>

text \<open>
  Two clients connect, then the first one sends the header of a packet with
  two bytes of data.
\<close>

definition demo_log :: "error_code \<Rightarrow> string" where
  "demo_log e = ''I/O error''"

definition demo_peer :: "connection_id \<Rightarrow> byte list \<Rightarrow> 32 word \<Rightarrow> remote_peer" where
  "demo_peer i hdr n = \<lparr>rp_connection_id = i, rp_refs = \<lparr>rc_action = True, reference_count = n\<rparr>,
     rp_header_buffer = hdr, rp_error_happened = False, rp_socket_open = True\<rparr>"

definition demo_two :: server where
  "demo_two = \<lparr>peers_list = [(1, demo_peer 1 [0, 0, 0, 0] 1), (2, demo_peer 2 [0, 0, 0, 0] 1)],
     srv_pending = [PeerReadHeader 1, PeerReadHeader 2, Accept], current_conn_id = 2,
     srv_stopped = False, srv_out = [LogNewClient, LogNewClient]\<rparr>"

definition demo_body :: server where
  "demo_body = \<lparr>peers_list = [(1, demo_peer 1 [0x80, 6, 0, 0] 1), (2, demo_peer 2 [0, 0, 0, 0] 1)],
     srv_pending = [PeerReadHeader 2, Accept, PeerReadBody 1 2], current_conn_id = 2,
     srv_stopped = False, srv_out = [LogNewClient, LogNewClient]\<rparr>"

definition demo_one :: server where
  "demo_one = \<lparr>peers_list = [(1, demo_peer 1 [0, 0, 0, 0] 1)],
     srv_pending = [PeerReadHeader 1, Accept], current_conn_id = 1,
     srv_stopped = False, srv_out = [LogNewClient]\<rparr>"

lemmas srv_eval = demo_one_def demo_two_def demo_body_def demo_peer_def demo_log_def
  srv_complete_def acceptHandler_def srv_print_def getNextConnectionId_def rp_ctor_def
  startReceive_def rp_start_def with_peer_def put_peer_def rp_init_def bind_reference_def rc_defs
  startAccept_def srv_take_def srv_ctor_def segm_header_length_def receive_into_header_def
  overwrite_def rcvHeaderHandler_def rp_release_def canDelete_def completion_ok_def few_operations_def
  rcvBodyHandler_def sendHandler_def int_max_def Let_def

lemma replicate_small: "replicate 4 x = [x, x, x, x]" "replicate 2 x = [x, x]"
  by (simp_all add: numeral_eq_Suc)

lemma demo_one_step: "srv_complete LittleEndian demo_log 0 Success [] srv_ctor = Inr demo_one"
  by (simp add: srv_eval replicate_small)

lemma demo_two_step: "srv_complete LittleEndian demo_log 1 Success [] demo_one = Inr demo_two"
  by (simp add: srv_eval replicate_small)

lemma demo_body_buffer: "body_buffer host e [0x80, 6, 0, 0] = Inr [0, 0]"
  by (simp add: body_buffer_cases unat_word_of_le_two replicate_small)

lemma demo_body_step: "srv_complete LittleEndian demo_log 0 Success [0x80, 6, 0, 0] demo_two = Inr demo_body"
  by (simp add: srv_eval demo_body_buffer replicate_small)

lemma demo_reachable:
  "srv_reachable LittleEndian demo_log demo_one" "srv_reachable LittleEndian demo_log demo_two"
  "srv_reachable LittleEndian demo_log demo_body"
proof -
  show 1: "srv_reachable LittleEndian demo_log demo_one"
    by (rule srv_reachable.step [OF srv_reachable.start],
        rule srv_step.complete [OF _ _ demo_one_step]) (simp_all add: srv_eval)
  show 2: "srv_reachable LittleEndian demo_log demo_two"
    by (rule srv_reachable.step [OF 1], rule srv_step.complete [OF _ _ demo_two_step]) (simp_all add: srv_eval)
  show "srv_reachable LittleEndian demo_log demo_body"
    by (rule srv_reachable.step [OF 2], rule srv_step.complete [OF _ _ demo_body_step]) (simp_all add: srv_eval)
qed

section \<open>Properties of the server\<close>

text \<open>
  C6. Every completion of a pending operation, in every reachable state of the
  server, has the outcome the specification gives: the same pending
  operations, printed lines, identifiers and stop flag, or the same failure,
  and the state again represents a specification state.
\<close>

theorem server_refines_spec:
  assumes "srv_reachable host em s" and "completion_ok k err data s" and "few_operations s"
  shows "refines (srv_complete host em k err data s) (spec_complete em k err data (spec_of s))"
  by (rule srv_complete_refines_spec [OF srv_reachable_rep [OF assms(1)] assms(2,3)])

lemma server_refines_spec_witness:
  "refines (srv_complete LittleEndian demo_log 2 Success [7, 8] demo_body)
     (spec_complete demo_log 2 Success [7, 8] (spec_of demo_body))"
  by (rule server_refines_spec [OF demo_reachable(3)]) (simp_all add: srv_eval)



lemma peer_alive:
  assumes "srv_reachable host em s"
  shows "i \<in> set (peer_ids s) \<longleftrightarrow> 0 < npending i s"
proof
  from srv_reachable_rep [OF assms] have inv: "srv_inv (\<lambda>_. 0) s" by (simp add: srv_rep_def)
  {
    assume "i \<in> set (peer_ids s)"
    with inv obtain p where "peer_inv i (npending i s + 0) p" by (rule srv_inv_peer)
    then show "0 < npending i s" by (simp add: peer_inv_def)
  }
  assume "0 < npending i s"
  then show "i \<in> set (peer_ids s)"
    using inv by (auto simp: npending_def srv_inv_def length_greater_0_conv filter_empty_conv simp del: length_greater_0_conv)
qed

text \<open>
  C17. A peer object exists exactly as long as an operation is pending on it,
  and its reference count is the number of these operations.
\<close>

theorem peers_live_while_pending:
  assumes "srv_reachable host em s"
  shows "(i \<in> set (peer_ids s) \<longleftrightarrow> 0 < npending i s) \<and>
     (\<forall>p. map_of (peers_list s) i = Some p \<longrightarrow> getRefCount (rp_refs p) = of_nat (npending i s))"
proof -
  from srv_reachable_rep [OF assms] have "srv_inv (\<lambda>_. 0) s" by (simp add: srv_rep_def)
  with peer_alive [OF assms] show ?thesis by (simp add: srv_inv_def peer_inv_def getRefCount_def)
qed

lemma peers_live_while_pending_witness:
  "(1 \<in> set (peer_ids demo_two) \<longleftrightarrow> 0 < npending 1 demo_two) \<and>
   getRefCount (rp_refs (demo_peer 1 [0, 0, 0, 0] 1)) = of_nat (npending 1 demo_two)"
  using peers_live_while_pending [OF demo_reachable(2), of 1]
  by (simp add: demo_two_def)

text \<open>
  C19. The server accepts one client at a time until accepting fails and stops
  it; a connection that was accepted and had no error is served: its peer
  exists and has exactly one read pending, and no connection ever has two.
\<close>

theorem connections_are_served:
  assumes "srv_reachable host em s"
  shows "accepts (srv_pending s) = (if srv_stopped s then 0 else 1) \<and>
     reads i (srv_pending s) \<le> 1 \<and>
     (0 < i \<and> i \<le> current_conn_id s \<and> \<not> errored (srv_out s) i \<longrightarrow>
        i \<in> set (peer_ids s) \<and> reads i (srv_pending s) = 1)"
proof -
  from srv_reachable_rep [OF assms] have inv: "srv_inv (\<lambda>_. 0) s" by (simp add: srv_rep_def)
  from srv_reachable_spec_inv [OF assms] have sp: "spec_inv (spec_of s)" .
  have "i \<in> set (peer_ids s)" if "reads i (srv_pending s) = 1"
  proof -
    from that have "filter (is_read i) (srv_pending s) \<noteq> []" by (auto simp: reads_def)
    then obtain op where "op \<in> set (srv_pending s)" "is_read i op" by (auto simp: filter_empty_conv)
    moreover from this(2) have "op_peer op = Some i" by (cases op) simp_all
    ultimately show ?thesis using inv by (auto simp: srv_inv_def)
  qed
  with sp show ?thesis by (auto simp: spec_inv_def spec_of_def)
qed

lemma connections_are_served_witness:
  "2 \<in> set (peer_ids demo_body) \<and> reads 2 (srv_pending demo_body) = 1"
  using connections_are_served [OF demo_reachable(3), of 2]
  by (simp add: demo_body_def errored_def)

text \<open>
  C29. The error of a connection is reported at most once; a peer's socket is
  open exactly as long as no error was reported for it.
\<close>

theorem errors_reported_once:
  assumes "srv_reachable host em s"
  shows "error_reports i (srv_out s) \<le> 1 \<and>
     (\<forall>p. map_of (peers_list s) i = Some p \<longrightarrow>
        (rp_error_happened p \<longleftrightarrow> error_reports i (srv_out s) = 1) \<and>
        (rp_socket_open p \<longleftrightarrow> error_reports i (srv_out s) = 0))"
proof -
  from srv_reachable_rep [OF assms] have v: "view_ok {} (view s)" by (simp add: srv_rep_def)
  from srv_reachable_spec_inv [OF assms]
  have once: "error_reports i (srv_out s) = (if errored (srv_out s) i then 1 else 0)"
    by (simp add: spec_inv_def spec_of_def)
  have "rp_error_happened p = errored (srv_out s) i \<and> rp_socket_open p = (\<not> errored (srv_out s) i)"
    if "map_of (peers_list s) i = Some p" for p
    using v view_flags_peer [OF that] by (auto simp: view_ok_def peer_flags_def split: if_splits)
  with once show ?thesis by simp
qed

lemma errors_reported_once_witness: "error_reports 1 (srv_out demo_body) \<le> 1"
  using errors_reported_once [OF demo_reachable(3), of 1] by blast

text \<open>A good header, for the properties of whole runs: its sender stays, and its body is read.\<close>

lemma header_step:
  assumes "srv_reachable host em s" and "completion_ok k Success hdr s" and "few_operations s"
    and "srv_pending s ! k = PeerReadHeader i"
    and "hdr ! 0 = 0x80" and "hdr ! 3 = 0" and "4 \<le> packet_length hdr" and "packet_length hdr \<le> 0x8FFF"
  shows "\<exists>s'. srv_complete host em k Success hdr s = Inr s' \<and> srv_reachable host em s' \<and>
     srv_pending s' = take k (srv_pending s) @ drop (Suc k) (srv_pending s) @
       [PeerReadBody i (packet_length hdr - 4)] \<and>
     peer_ids s' = peer_ids s \<and> srv_stopped s' = srv_stopped s \<and> srv_out s' = srv_out s"
proof -
  from srv_reachable_rep [OF assms(1)] have rep: "srv_rep s" .
  have k: "k < length (srv_pending s)" using assms(2) by (simp add: completion_ok_def)
  have "refines (srv_complete host em k Success hdr s) (spec_complete em k Success hdr (spec_of s))"
    by (rule srv_complete_refines_spec [OF rep assms(2,3)])
  then obtain s' where s': "srv_complete host em k Success hdr s = Inr s'" "srv_rep s'"
      "spec_of s' = spec_start [PeerReadBody i (packet_length hdr - 4)] (spec_take k (spec_of s))"
    using assms(4-8)
    by (cases "srv_complete host em k Success hdr s")
      (auto simp: spec_complete_def spec_of_def spec_header_def)
  have pend: "srv_pending s' = take k (srv_pending s) @ drop (Suc k) (srv_pending s) @
       [PeerReadBody i (packet_length hdr - 4)]" and stop: "srv_stopped s' = srv_stopped s"
      and out: "srv_out s' = srv_out s"
    using arg_cong [OF s'(3), of sp_pending] arg_cong [OF s'(3), of sp_stopped] arg_cong [OF s'(3), of sp_out]
    by (simp_all add: spec_of_def spec_update_defs)
  have ids: "peer_ids t = spec_peers (srv_pending t)" if "srv_rep t" for t
    using peer_ids_spec [of "\<lambda>_. 0" t "{}" "srv_pending t"] that by (simp add: srv_rep_def)
  have split: "srv_pending s = take k (srv_pending s) @ srv_pending s ! k # drop (Suc k) (srv_pending s)"
    by (rule id_take_nth_drop [OF k])
  have "set (spec_peers (srv_pending s')) = set (spec_peers (srv_pending s))"
    unfolding pend by (subst split) (auto simp: set_spec_peers assms(4))
  moreover have "sorted_wrt (<) (spec_peers ops)" for ops by (simp add: spec_peers_def strict_sorted_iff)
  ultimately have "spec_peers (srv_pending s') = spec_peers (srv_pending s)"
    by (intro strict_sorted_equal) auto
  then have "peer_ids s' = peer_ids s" by (simp add: ids rep s'(2))
  moreover have "srv_reachable host em s'"
    using assms(1) srv_step.complete [OF assms(2,3) s'(1)] by (rule srv_reachable.step)
  ultimately show ?thesis using s'(1) pend stop out by blast
qed

text \<open>The relay of a message body, for the properties of whole runs.\<close>

lemma relay_step_header:
  assumes "srv_reachable host em s" and "completion_ok k Success body s" and "few_operations s"
    and "srv_pending s ! k = PeerReadBody i n"
  shows "\<exists>s'. srv_complete host em k Success body s = Inr s' \<and>
     i \<in> set (peer_ids s) \<and>
     srv_pending s' = take k (srv_pending s) @ drop (Suc k) (srv_pending s) @
       map (\<lambda>j. PeerSend j (segm_header_bytes (of_nat (n + 4)) @ body)) (peer_ids s) @ [PeerReadHeader i] \<and>
     srv_reachable host em s' \<and> peer_ids s' = peer_ids s \<and> srv_stopped s' = srv_stopped s \<and>
     srv_out s' = srv_out s @ [LogReceivedFrom i]"
proof -
  from assms(2,4) have len: "length body = n" and k: "k < length (srv_pending s)"
    by (simp_all add: completion_ok_def)
  from srv_reachable_rep [OF assms(1)] have rep: "srv_rep s" .
  then have inv: "srv_inv (\<lambda>_. 0) s" and v: "view_ok {} (view s)" by (simp_all add: srv_rep_def)
  have ids: "peer_ids t = spec_peers (srv_pending t)" if "srv_rep t" for t
    using peer_ids_spec [of "\<lambda>_. 0" t "{}" "srv_pending t"] that by (simp add: srv_rep_def)
  have "refines (srv_complete host em k Success body s) (spec_complete em k Success body (spec_of s))"
    by (rule srv_complete_refines_spec [OF rep assms(2,3)])
  then obtain s' where s': "srv_complete host em k Success body s = Inr s'" "srv_rep s'"
      "Inr (spec_of s') = spec_complete em k Success body (spec_of s)"
    by (cases "srv_complete host em k Success body s"; cases "spec_complete em k Success body (spec_of s)")
      (auto simp: spec_complete_def spec_of_def assms(4))
  then have "spec_of s' = spec_start (map (\<lambda>j. PeerSend j (segm_header_bytes (of_nat (n + 4)) @ body)) (peer_ids s) @
       [PeerReadHeader i]) (spec_print (LogReceivedFrom i) (spec_take k (spec_of s)))"
    using len by (simp add: spec_complete_def spec_of_def assms(4) spec_body_def ids [OF rep])
  from arg_cong [OF this, of sp_pending] arg_cong [OF this, of sp_stopped] arg_cong [OF this, of sp_out]
  have pend: "srv_pending s' = take k (srv_pending s) @ drop (Suc k) (srv_pending s) @
       map (\<lambda>j. PeerSend j (segm_header_bytes (of_nat (n + 4)) @ body)) (peer_ids s) @ [PeerReadHeader i]"
    and other: "srv_stopped s' = srv_stopped s" "srv_out s' = srv_out s @ [LogReceivedFrom i]"
    by (simp_all add: spec_of_def spec_update_defs)
  have mem: "i \<in> set (peer_ids s)"
    by (rule srv_inv_pending_peer [OF inv k]) (simp add: assms(4))
  have split: "srv_pending s = take k (srv_pending s) @ srv_pending s ! k # drop (Suc k) (srv_pending s)"
    by (rule id_take_nth_drop [OF k])
  have "set (spec_peers (srv_pending s)) = {i} \<union> set (spec_peers (take k (srv_pending s) @ drop (Suc k) (srv_pending s)))"
    by (subst split) (auto simp: set_spec_peers assms(4))
  then have "set (spec_peers (srv_pending s')) = set (spec_peers (srv_pending s))"
    unfolding pend using ids [OF rep] by (fastforce simp: set_spec_peers)
  moreover have "sorted_wrt (<) (spec_peers ops)" for ops by (simp add: spec_peers_def strict_sorted_iff)
  ultimately have "peer_ids s' = peer_ids s"
    unfolding ids [OF rep] ids [OF s'(2)] by (intro strict_sorted_equal) auto
  moreover have "srv_reachable host em s'"
    using assms(1) srv_step.complete [OF assms(2,3) s'(1)] by (rule srv_reachable.step)
  ultimately show ?thesis using s'(1) mem pend other by blast
qed

text \<open>
  When the body of a message arrives, its packet is queued for sending to
  every connected peer, in the order of their identifiers and the originator
  included, byte for byte as it came in with its header \<open>hdr\<close>, and then the
  next header of the originator is read.
\<close>

lemma relay_step:
  assumes "srv_reachable host em s" and "completion_ok k Success body s" and "few_operations s"
    and "srv_pending s ! k = PeerReadBody i n"
    and "length hdr = 4" and "hdr ! 0 = 0x80" and "hdr ! 3 = 0" and "packet_length hdr = n + 4"
  shows "\<exists>s'. srv_complete host em k Success body s = Inr s' \<and>
     i \<in> set (peer_ids s) \<and>
     srv_pending s' = take k (srv_pending s) @ drop (Suc k) (srv_pending s) @
       map (\<lambda>j. PeerSend j (hdr @ body)) (peer_ids s) @ [PeerReadHeader i]"
  using relay_step_header [OF assms(1-4)] segm_header_bytes_packet_length [OF assms(5-7)] assms(8)
  by simp blast

text \<open>
  A bad packet header, in its identifier, its last byte or its size, ends
  the connection it came from: the error is printed, nothing more is read from
  the connection, and its peer only lives on while messages are being sent to it.
\<close>

lemma bad_header_step:
  assumes "srv_reachable host em s" and "completion_ok k Success hdr s" and "few_operations s"
    and "srv_pending s ! k = PeerReadHeader i"
    and "hdr ! 0 \<noteq> 0x80 \<or> hdr ! 3 \<noteq> 0 \<or> 0x8FFF < packet_length hdr"
  shows "\<exists>s'. srv_complete host em k Success hdr s = Inr s' \<and>
     errored (srv_out s') i \<and> reads i (srv_pending s') = 0 \<and>
     (i \<in> set (peer_ids s') \<longleftrightarrow> (\<exists>data. PeerSend i data \<in> set (srv_pending s')))"
proof -
  from srv_reachable_rep [OF assms(1)] have rep: "srv_rep s" .
  have "refines (srv_complete host em k Success hdr s) (spec_complete em k Success hdr (spec_of s))"
    by (rule srv_complete_refines_spec [OF rep assms(2,3)])
  then obtain s' where s': "srv_complete host em k Success hdr s = Inr s'" "srv_rep s'"
      "spec_of s' = spec_fail i ''Invalid packet header'' (spec_take k (spec_of s))"
    using assms(4,5)
    by (cases "srv_complete host em k Success hdr s")
      (auto simp: spec_complete_def spec_of_def spec_header_def)
  have k: "k < length (sp_pending (spec_of s))" and i: "is_read i (sp_pending (spec_of s) ! k)"
      "op_peer (sp_pending (spec_of s) ! k) = Some i"
    using assms(2,4) by (simp_all add: completion_ok_def spec_of_def)
  from take_reading [OF srv_reachable_spec_inv [OF assms(1)] k i(2,1)]
  have none: "reads i (sp_pending (spec_take k (spec_of s))) = 0" by (simp add: spec_inv_reading_def)
  have pend: "srv_pending s' = sp_pending (spec_take k (spec_of s))"
    using arg_cong [OF s'(3), of sp_pending] by (simp add: spec_of_def spec_fail_def spec_print_def)
  have "errored (srv_out s') i"
    using arg_cong [OF s'(3), of sp_out]
    by (auto simp: spec_of_def spec_fail_def spec_print_def split: if_splits)
  moreover have "i \<in> set (peer_ids s') \<longleftrightarrow> (\<exists>data. PeerSend i data \<in> set (srv_pending s'))"
  proof -
    from s'(2) have "set (peer_ids s') = set (spec_peers (srv_pending s'))"
      using peer_ids_spec [of "\<lambda>_. 0" s' "{}" "srv_pending s'"] by (simp add: srv_rep_def)
    moreover have "\<not> is_read i op" if "op \<in> set (srv_pending s')" for op
      using that none by (auto simp: pend reads_def filter_empty_conv)
    ultimately have "\<exists>data. PeerSend i data \<in> set (srv_pending s')" if "i \<in> set (peer_ids s')"
      using that by (auto simp: set_spec_peers dest!: not_read_send)
    moreover have "op_peer (PeerSend i data) = Some i" for data by simp
    then have "i \<in> set (peer_ids s')" if "PeerSend i data \<in> set (srv_pending s')" for data
      using that s'(2) unfolding srv_rep_def srv_inv_def by blast
    ultimately show ?thesis by blast
  qed
  ultimately show ?thesis using s'(1) none pend by auto
qed

section \<open>Writes that overlap\<close>

definition writes :: "connection_id \<Rightarrow> srv_op list \<Rightarrow> nat" where
  "writes j ops = length (filter (\<lambda>op. case op of PeerSend i data \<Rightarrow> i = j | _ \<Rightarrow> False) ops)"

lemma writes_append: "writes j (ops @ ops') = writes j ops + writes j ops'"
  by (simp add: writes_def)

lemma writes_simps [simp]:
  "writes j [] = 0"
  "writes j (PeerSend i data # ops) = (if i = j then 1 else 0) + writes j ops"
  "writes j (PeerReadHeader i # ops) = writes j ops"
  "writes j (PeerReadBody i n # ops) = writes j ops"
  "writes j (Accept # ops) = writes j ops"
  by (simp_all add: writes_def)

lemma writes_to_each:
  "distinct is \<Longrightarrow> writes j (map (\<lambda>i. PeerSend i data) is) = (if j \<in> set is then 1 else 0)"
  by (induction "is") auto

text \<open>
  The server does not wait for a write to a peer before it starts the next
  one: relaying a message starts one more write on the socket of every peer,
  whatever is pending there, so the writes to a peer that reads slowly pile up;
  Boost.Asio allows one at a time on a stream.
\<close>

lemma relaying_overlaps_writes:
  assumes "srv_reachable host em s" and "completion_ok k Success body s" and "few_operations s"
    and "srv_pending s ! k = PeerReadBody i n"
  shows "\<exists>s'. srv_complete host em k Success body s = Inr s' \<and> srv_reachable host em s' \<and>
     (\<forall>j. writes j (srv_pending s') = writes j (srv_pending s) + (if j \<in> set (peer_ids s) then 1 else 0))"
proof -
  from relay_step_header [OF assms] obtain s' where s': "srv_complete host em k Success body s = Inr s'"
      "srv_pending s' = take k (srv_pending s) @ drop (Suc k) (srv_pending s) @
         map (\<lambda>j. PeerSend j (segm_header_bytes (of_nat (n + 4)) @ body)) (peer_ids s) @ [PeerReadHeader i]"
    by blast
  have "map_sorted (peers_list s)"
    using srv_reachable_rep [OF assms(1)] by (simp add: srv_rep_def srv_inv_def)
  then have "distinct (peer_ids s)"
    by (simp add: map_sorted_def peer_ids_def strict_sorted_iff)
  moreover have "srv_pending s = take k (srv_pending s) @ PeerReadBody i n # drop (Suc k) (srv_pending s)"
    using assms(2,4) id_take_nth_drop [of k "srv_pending s"] by (simp add: completion_ok_def)
  then have "writes j (srv_pending s) = writes j (take k (srv_pending s)) + writes j (drop (Suc k) (srv_pending s))" for j
    by (metis writes_append writes_simps(4))
  ultimately have "\<forall>j. writes j (srv_pending s') =
      writes j (srv_pending s) + (if j \<in> set (peer_ids s) then 1 else 0)"
    by (simp add: s'(2) writes_append writes_to_each)
  moreover have "srv_reachable host em s'"
    using assms(1) srv_step.complete [OF assms(2,3) s'(1)] by (rule srv_reachable.step)
  ultimately show ?thesis using s'(1) by blast
qed

end
