(* ===== verification/ServerDrain.thy ===== *)
theory ServerDrain
  imports ServerInv
begin

text \<open>
  What becomes of a peer whose connection is lost: its operations fail one after
  the other, and with the last of them the peer object is destroyed.
\<close>

section \<open>Lost connections\<close>

text \<open>An operation of peer \<open>i\<close> fails.\<close>

inductive peer_fails ::
  "endianness \<Rightarrow> (error_code \<Rightarrow> string) \<Rightarrow> connection_id \<Rightarrow> server \<Rightarrow> server \<Rightarrow> bool"
  for host em i where
  fails: "completion_ok k err data s \<Longrightarrow> few_operations s \<Longrightarrow> op_peer (srv_pending s ! k) = Some i \<Longrightarrow>
    err \<noteq> Success \<Longrightarrow> srv_complete host em k err data s = Inr s' \<Longrightarrow> peer_fails host em i s s'"

lemma failed_operation:
  assumes "srv_reachable host em s" and "completion_ok k err data s" and "few_operations s"
    and "op_peer (srv_pending s ! k) = Some i" and "err \<noteq> Success"
  shows "\<exists>s'. srv_complete host em k err data s = Inr s' \<and> srv_reachable host em s' \<and>
     srv_pending s' = take k (srv_pending s) @ drop (Suc k) (srv_pending s) \<and>
     srv_stopped s' = srv_stopped s \<and> errored (srv_out s') i"
proof -
  have "spec_complete em k err data (spec_of s) = Inr (spec_fail i (em err) (spec_take k (spec_of s)))"
    using assms(4,5)
    by (cases "srv_pending s ! k") (auto simp: spec_complete_def spec_of_def spec_header_def spec_body_def)
  with srv_complete_refines_spec [OF srv_reachable_rep [OF assms(1)] assms(2,3), of host em] obtain s' where
      s': "srv_complete host em k err data s = Inr s'"
        "spec_of s' = spec_fail i (em err) (spec_take k (spec_of s))"
    by (cases "srv_complete host em k err data s") auto
  have "srv_reachable host em s'"
    using assms(1) srv_step.complete [OF assms(2,3) s'(1)] by (rule srv_reachable.step)
  with s'(1) show ?thesis
    using arg_cong [OF s'(2), of sp_pending] arg_cong [OF s'(2), of sp_stopped] arg_cong [OF s'(2), of sp_out]
    by (auto simp: spec_of_def spec_fail_def spec_take_def spec_print_def)
qed

lemma npending_drop:
  assumes "k < length (srv_pending s)" and "srv_pending s' = take k (srv_pending s) @ drop (Suc k) (srv_pending s)"
    and "op_peer (srv_pending s ! k) = Some i"
  shows "npending j s = npending j s' + (if j = i then 1 else 0)"
  using filter_remove_nth [OF assms(1), of "\<lambda>op. op_peer op = Some j"] assms(2,3) by (auto simp: npending_def)

lemma peer_fails_step:
  assumes "srv_reachable host em s" and "peer_fails host em i s s'"
  shows "srv_reachable host em s'" "few_operations s'" "srv_stopped s' = srv_stopped s"
    "npending j s = npending j s' + (if j = i then 1 else 0)" "errored (srv_out s') i"
proof -
  from assms(2) obtain k err data where c: "completion_ok k err data s" "few_operations s"
      "op_peer (srv_pending s ! k) = Some i" "err \<noteq> Success" "srv_complete host em k err data s = Inr s'"
    by (cases rule: peer_fails.cases)
  from c(1) have k: "k < length (srv_pending s)" by (simp add: completion_ok_def)
  from failed_operation [OF assms(1) c(1-4)] c(5)
  have r: "srv_reachable host em s'" "srv_pending s' = take k (srv_pending s) @ drop (Suc k) (srv_pending s)"
      "srv_stopped s' = srv_stopped s" "errored (srv_out s') i" by auto
  then show "srv_reachable host em s'" "srv_stopped s' = srv_stopped s" "errored (srv_out s') i" by simp_all
  show "few_operations s'" using c(2) k by (simp add: few_operations_def r(2))
  show "npending j s = npending j s' + (if j = i then 1 else 0)" by (rule npending_drop [OF k r(2) c(3)])
qed

lemma peer_can_fail:
  assumes "srv_reachable host em s" and "few_operations s" and "\<not> srv_stopped s" and "0 < npending i s"
  shows "\<exists>s'. peer_fails host em i s s'"
proof -
  from assms(4) obtain k where k: "k < length (srv_pending s)" "op_peer (srv_pending s ! k) = Some i"
    by (auto simp: npending_def filter_empty_conv in_set_conv_nth)
  have "completion_ok k (OtherError 0) [] s"
    using assms(3) k by (cases "srv_pending s ! k") (auto simp: completion_ok_def)
  from peer_fails.fails [OF this assms(2) k(2)] failed_operation [OF assms(1) this assms(2) k(2)] show ?thesis by blast
qed

lemma peer_fails_run:
  "(peer_fails host em i ^^ n) s s' \<Longrightarrow> srv_reachable host em s \<Longrightarrow> few_operations s \<Longrightarrow>
   srv_reachable host em s' \<and> few_operations s' \<and> srv_stopped s' = srv_stopped s \<and>
   npending i s = npending i s' + n \<and> (\<forall>j. j \<noteq> i \<longrightarrow> npending j s' = npending j s)"
proof (induction n arbitrary: s')
  case 0
  then show ?case by simp
next
  case (Suc n)
  from Suc.prems(1) obtain u where u: "(peer_fails host em i ^^ n) s u" "peer_fails host em i u s'" by auto
  from Suc.IH [OF u(1) Suc.prems(2,3)] have r: "srv_reachable host em u" "srv_stopped u = srv_stopped s"
      "npending i s = npending i u + n" "\<forall>j. j \<noteq> i \<longrightarrow> npending j u = npending j s" by simp_all
  from peer_fails_step [OF r(1) u(2)] r(2-4) show ?case by simp
qed

text \<open>
  C10. A lost connection is cleaned up.  If from now on every operation of a peer
  fails and the server does nothing else, its handlers return one after the
  other, each of them possible while the service runs, and the peer is destroyed
  exactly when the last of its pending operations has failed, by the counter's
  action within \<open>decreaseRefCount\<close>, the end of which then uses the destroyed
  object; the other peers stay as they are.
\<close>

theorem lost_peer_is_destroyed:
  assumes "srv_reachable host em s" and "few_operations s" and "\<not> srv_stopped s"
    and "(peer_fails host em i ^^ n) s s'"
  shows "n \<le> npending i s \<and>
     (if n < npending i s then i \<in> set (peer_ids s') \<and> (\<exists>s''. peer_fails host em i s' s'')
      else i \<notin> set (peer_ids s') \<and> leave_decreaseRefCount i s' = Inl (Undefined UseAfterFree)) \<and>
     (\<forall>j. j \<noteq> i \<longrightarrow> (j \<in> set (peer_ids s') \<longleftrightarrow> j \<in> set (peer_ids s)))"
proof -
  from peer_fails_run [OF assms(4,1,2)] have r: "srv_reachable host em s'" "few_operations s'" "\<not> srv_stopped s'"
      "npending i s = npending i s' + n" "\<forall>j. j \<noteq> i \<longrightarrow> npending j s' = npending j s"
    using assms(3) by simp_all
  have "leave_decreaseRefCount i s' = Inl (Undefined UseAfterFree)" if "i \<notin> set (peer_ids s')"
    using that by (auto simp: leave_decreaseRefCount_def with_peer_def peer_ids_def map_keys_def
        map_of_eq_None_iff [THEN iffD2])
  with peer_can_fail [OF r(1-3), of i] r(4,5) peer_alive [OF r(1)] peer_alive [OF assms(1)] show ?thesis by auto
qed

lemma lost_peer_is_destroyed_witness:
  "\<exists>s'. peer_fails LittleEndian demo_log 1 demo_two s' \<and> 1 \<notin> set (peer_ids s') \<and> 2 \<in> set (peer_ids s')"
proof -
  have d: "few_operations demo_two" "\<not> srv_stopped demo_two" "npending 1 demo_two = 1" "2 \<in> set (peer_ids demo_two)"
    by (simp_all add: few_operations_def demo_two_def npending_def peer_ids_def map_keys_def)
  from peer_can_fail [OF demo_reachable(2) d(1,2), of 1] d(3) obtain s' where
      s': "peer_fails LittleEndian demo_log 1 demo_two s'" by auto
  then have "(peer_fails LittleEndian demo_log 1 ^^ 1) demo_two s'" by auto
  from lost_peer_is_destroyed [OF demo_reachable(2) d(1,2) this] s' d(3,4) show ?thesis by auto
qed

end
