(* ===== verification/ServerMain.thy ===== *)
theory ServerMain
  imports ServerDrain
begin

text \<open>
  The whole life of the server process: \<open>main\<close> (\<open>server/main.cpp\<close>),
  \<open>DispatchingServer::run\<close>, and the destructor of \<open>DispatchingServer\<close>, which the
  compiler generates from the order of the members in \<open>dispatcher.hpp\<close>.

  Of Boost.Asio the model uses that \<open>run\<close> calls handlers until the service is
  stopped or nothing is pending, passing on an exception of a handler, and that
  the destructor of an \<open>io_service\<close> destroys the handlers that are still pending
  without calling them.
\<close>

section \<open>run\<close>

inductive srv_runs :: "endianness \<Rightarrow> (error_code \<Rightarrow> string) \<Rightarrow> server \<Rightarrow> server result \<Rightarrow> bool"
  for host em where
  run_returns: "srv_stopped s \<or> srv_pending s = [] \<Longrightarrow> srv_runs host em s (Inr s)"
| run_handles: "completion_ok k err data s \<Longrightarrow> few_operations s \<Longrightarrow>
    srv_complete host em k err data s = Inr s' \<Longrightarrow> srv_runs host em s' r \<Longrightarrow> srv_runs host em s r"
| run_throws: "completion_ok k err data s \<Longrightarrow> few_operations s \<Longrightarrow>
    srv_complete host em k err data s = Inl failed \<Longrightarrow> srv_runs host em s (Inl failed)"

section \<open>The destructor\<close>

text \<open>A handler that is destroyed drops its counted reference.\<close>

fun destroy_handlers :: "endianness \<Rightarrow> srv_op list \<Rightarrow> server \<Rightarrow> server result" where
  "destroy_handlers host [] s = Inr s"
| "destroy_handlers host (op # ops) s =
     (case op_peer op of
        None \<Rightarrow> destroy_handlers host ops s
      | Some i \<Rightarrow> rbind (rp_release (handleServerEvent host) i s) (destroy_handlers host ops))"

text \<open>Members are destroyed from the last to the first: the peers before the service.\<close>

definition srv_dtor :: "endianness \<Rightarrow> server \<Rightarrow> server result" where
  "srv_dtor host s =
     (let s = s\<lparr>peers_list := []\<rparr>; handlers = srv_pending s
      in destroy_handlers host handlers (s\<lparr>srv_pending := []\<rparr>))"

section \<open>main\<close>

text \<open>What \<open>main\<close> leaves: the lines printed, the last of them its own, and the exit code.\<close>

definition main_leaves :: "endianness \<Rightarrow> server result \<Rightarrow> (srv_log list \<times> string \<times> int) result" where
  "main_leaves host r =
     rbind r (\<lambda>s.
     let farewell = ''The server is terminating.'' in
     rbind (srv_dtor host s) (\<lambda>s'. Inr (srv_out s, farewell, 0)))"

inductive srv_main :: "endianness \<Rightarrow> (error_code \<Rightarrow> string) \<Rightarrow> (srv_log list \<times> string \<times> int) result \<Rightarrow> bool"
  for host em where
  main: "server_ctor refused = Inr s \<Longrightarrow> srv_runs host em s r \<Longrightarrow> srv_main host em (main_leaves host r)"
| main_no_server: "server_ctor refused = Inl failed \<Longrightarrow> srv_main host em (Inl failed)"

section \<open>How the process ends\<close>

lemma runs_from_reachable:
  "srv_runs host em s r \<Longrightarrow> srv_reachable host em s \<Longrightarrow>
   case r of
     Inr s' \<Rightarrow> srv_reachable host em s' \<and> srv_stopped s'
   | Inl failed \<Rightarrow> failed = Undefined SignedOverflow \<or> failed = Throw LengthError"
proof (induction rule: srv_runs.induct)
  case (run_returns s)
  have "accepts (srv_pending s) = (if srv_stopped s then 0 else 1)"
    using srv_reachable_spec_inv [OF run_returns(2)] by (simp add: spec_inv_def spec_of_def)
  with run_returns show ?case by (auto split: if_splits)
next
  case (run_handles k err data s s' r)
  have "srv_reachable host em s'"
    using run_handles.prems srv_step.complete [OF run_handles.hyps(1-3)] by (rule srv_reachable.step)
  then show ?case by (rule run_handles.IH)
next
  case (run_throws k err data s failed)
  have "refines (srv_complete host em k err data s) (spec_complete em k err data (spec_of s))"
    by (rule srv_complete_refines_spec [OF srv_reachable_rep [OF run_throws.prems] run_throws.hyps(1,2)])
  with run_throws.hyps(3) have "spec_complete em k err data (spec_of s) = Inl failed"
    by (cases "spec_complete em k err data (spec_of s)") simp_all
  then show ?case
    by (cases "srv_pending s ! k")
      (auto simp: spec_complete_def spec_accept_def spec_header_def spec_of_def Let_def split: if_splits)
qed

lemma destroy_handlers_dead:
  "peers_list s = [] \<Longrightarrow> destroy_handlers host ops s =
     (if \<exists>op \<in> set ops. op_peer op \<noteq> None then Inl (Undefined UseAfterFree) else Inr s)"
  by (induction ops) (auto simp: rp_release_def with_peer_def split: option.split)

lemma srv_dtor_reachable:
  assumes "srv_reachable host em s"
  shows "srv_dtor host s = (if peer_ids s = [] then Inr (s\<lparr>peers_list := [], srv_pending := []\<rparr>)
     else Inl (Undefined UseAfterFree))"
proof -
  have "peer_ids s = [] \<longleftrightarrow> (\<forall>i. npending i s = 0)"
    using peer_alive [OF assms] by (metis length_greater_0_conv list.set_intros(1) neq0_conv neq_Nil_conv
        list.set(1) empty_iff)
  also have "\<dots> \<longleftrightarrow> (\<forall>op \<in> set (srv_pending s). op_peer op = None)"
    by (auto simp: npending_def filter_empty_conv) (meson option.exhaust)
  finally show ?thesis by (auto simp: srv_dtor_def Let_def destroy_handlers_dead)
qed

text \<open>
  C16. How the server process ends.  \<open>run\<close> only returns after an accept has failed.
  Then, if no client is connected, \<open>main\<close> prints its farewell and the process
  exits with zero; if one is, the peers are destroyed before the handlers that
  hold references to them, and a destroyed object is used.  Otherwise an exception
  or the overflow of the connection counter has ended \<open>run\<close>, or there was no
  server to run because its port could not be opened.
\<close>

theorem server_process_ends:
  assumes "srv_main host em r"
  shows "(\<exists>s. srv_reachable host em s \<and> srv_stopped s \<and>
       r = (if peer_ids s = [] then Inr (srv_out s, ''The server is terminating.'', 0)
            else Inl (Undefined UseAfterFree))) \<or>
     r = Inl (Undefined SignedOverflow) \<or> r = Inl (Throw LengthError) \<or>
     (\<exists>what. r = Inl (Throw (SystemError what)))"
  using assms
proof (cases rule: srv_main.cases)
  case (main refused s0 q)
  then have run: "srv_runs host em srv_ctor q" by (simp add: server_ctor_def split: option.splits)
  from runs_from_reachable [OF run srv_reachable.start] show ?thesis
  proof (cases q)
    case (Inr s)
    with runs_from_reachable [OF run srv_reachable.start]
    have s: "srv_reachable host em s" "srv_stopped s" by simp_all
    with main(1) Inr srv_dtor_reachable [OF s(1)] show ?thesis
      by (auto simp: main_leaves_def Let_def intro!: exI [of _ s])
  qed (auto simp: main(1) main_leaves_def)
next
  case (main_no_server refused failed)
  then show ?thesis by (auto simp: server_ctor_def split: option.splits)
qed

text \<open>A client connects, then accepting fails.\<close>

lemma server_process_ends_witness:
  "srv_main LittleEndian demo_log (Inl (Undefined UseAfterFree)) \<and>
   (\<exists>s. srv_reachable LittleEndian demo_log s \<and> srv_stopped s \<and> peer_ids s \<noteq> [])"
proof -
  let ?s = "demo_one\<lparr>srv_pending := [PeerReadHeader 1], srv_stopped := True,
      srv_out := [LogNewClient, LogAcceptFailed ''I/O error'']\<rparr>"
  have fails: "srv_complete LittleEndian demo_log 1 (OtherError 0) [] demo_one = Inr ?s"
    by (simp add: srv_eval)
  have "srv_runs LittleEndian demo_log ?s (Inr ?s)" by (rule run_returns) simp
  then have "srv_runs LittleEndian demo_log demo_one (Inr ?s)"
    by (intro run_handles [OF _ _ fails]) (simp_all add: srv_eval)
  then have "srv_runs LittleEndian demo_log srv_ctor (Inr ?s)"
    by (intro run_handles [OF _ _ demo_one_step]) (simp_all add: srv_eval)
  then have run: "srv_main LittleEndian demo_log (main_leaves LittleEndian (Inr ?s))"
    by (intro main [of None srv_ctor]) (simp_all add: server_ctor_def)
  moreover have uaf: "main_leaves LittleEndian (Inr ?s) = Inl (Undefined UseAfterFree)"
    by (simp add: main_leaves_def srv_dtor_def rp_release_def with_peer_def Let_def)
  ultimately have "srv_main LittleEndian demo_log (Inl (Undefined UseAfterFree))" by simp
  moreover from server_process_ends [OF this]
  have "\<exists>s. srv_reachable LittleEndian demo_log s \<and> srv_stopped s \<and> peer_ids s \<noteq> []" by (auto split: if_splits)
  ultimately show ?thesis ..
qed

end
