(* ===== verification/ServerStream.thy ===== *)
theory ServerStream
  imports ServerInv
begin

text \<open>
  The server as a reader of the byte stream of one of its peers: it provides the
  contract \<open>packet_reader\<close>, so every packet the reference parser finds in the
  stream is queued for every peer, in order.  Then the order in which the peers
  get the packets of several senders.
\<close>

section \<open>The pending read of a peer\<close>

definition op_read_size :: "srv_op \<Rightarrow> nat" where
  "op_read_size op = (case op of PeerReadHeader i \<Rightarrow> segm_header_length | PeerReadBody i n \<Rightarrow> n | _ \<Rightarrow> 0)"

definition peer_want :: "connection_id \<Rightarrow> server \<Rightarrow> nat option" where
  "peer_want i s =
     (let k = first_index (is_read i) (srv_pending s)
      in if k < length (srv_pending s) then Some (op_read_size (srv_pending s ! k)) else None)"

definition peer_arrive ::
  "endianness \<Rightarrow> (error_code \<Rightarrow> string) \<Rightarrow> connection_id \<Rightarrow> byte list \<Rightarrow> server \<Rightarrow> server result" where
  "peer_arrive host em i data s = srv_complete host em (first_index (is_read i) (srv_pending s)) Success data s"

text \<open>\<open>n\<close> packets can be relayed before there are too many operations.\<close>

definition peer_ready :: "endianness \<Rightarrow> (error_code \<Rightarrow> string) \<Rightarrow> nat \<Rightarrow> server \<Rightarrow> bool" where
  "peer_ready host em n s \<longleftrightarrow> srv_reachable host em s \<and> \<not> srv_stopped s \<and>
     length (srv_pending s) + n * length (peer_ids s) < 2 ^ 31"

definition peer_awaiting :: "endianness \<Rightarrow> (error_code \<Rightarrow> string) \<Rightarrow> connection_id \<Rightarrow> nat \<Rightarrow> server \<Rightarrow> bool" where
  "peer_awaiting host em i n s \<longleftrightarrow> peer_ready host em n s \<and> PeerReadHeader i \<in> set (srv_pending s)"

definition not_reads :: "connection_id \<Rightarrow> server \<Rightarrow> srv_op list" where
  "not_reads i s = filter (\<lambda>op. \<not> is_read i op) (srv_pending s)"

definition peer_consumed :: "connection_id \<Rightarrow> byte list \<Rightarrow> server \<Rightarrow> server \<Rightarrow> bool" where
  "peer_consumed i p s s' \<longleftrightarrow>
     not_reads i s' = not_reads i s @ map (\<lambda>j. PeerSend j p) (peer_ids s) \<and>
     peer_ids s' = peer_ids s \<and> srv_out s' = srv_out s @ [LogReceivedFrom i]"

definition peer_refused :: "connection_id \<Rightarrow> byte list \<Rightarrow> server \<Rightarrow> server result \<Rightarrow> bool" where
  "peer_refused i hdr s r \<longleftrightarrow>
     (if header_verdict hdr = Inl (exn_what LengthError) then r = Inl (Throw LengthError)
      else \<exists>s'. r = Inr s' \<and> errored (srv_out s') i \<and> peer_want i s' = None)"

lemma op_read_size_simps [simp]:
  "op_read_size (PeerReadHeader i) = 4" "op_read_size (PeerReadBody i n) = n"
  by (simp_all add: op_read_size_def segm_header_length_def)

lemma peer_want_single: "filter (is_read i) (srv_pending s) = [op] \<Longrightarrow> peer_want i s = Some (op_read_size op)"
  by (erule filter_single) (simp add: peer_want_def)

lemma peer_want_none: "reads i (srv_pending s) = 0 \<Longrightarrow> peer_want i s = None"
  by (simp add: peer_want_def reads_def first_index_def filter_empty_conv takeWhile_eq_all_conv [THEN iffD2])

lemma single_read:
  assumes "srv_reachable host em s" and "op \<in> set (srv_pending s)" and "is_read i op"
  shows "filter (is_read i) (srv_pending s) = [op]"
proof -
  have "length (filter (is_read i) (srv_pending s)) \<le> 1"
    using srv_reachable_spec_inv [OF assms(1)] by (simp add: spec_inv_def spec_of_def reads_def)
  moreover have "op \<in> set (filter (is_read i) (srv_pending s))" using assms(2,3) by simp
  ultimately show ?thesis by (cases "filter (is_read i) (srv_pending s)") auto
qed

lemma not_reads_parts:
  "srv_pending s = ys @ op # zs \<Longrightarrow> \<forall>y \<in> set ys \<union> set zs. \<not> is_read i y \<Longrightarrow> is_read i op \<Longrightarrow>
   not_reads i s = ys @ zs"
  by (simp add: not_reads_def)

section \<open>Arrivals\<close>

lemma peer_header_arrives:
  assumes "peer_awaiting host em i n s" and "length hdr = 4" and "header_verdict hdr = Inr k"
  shows "\<exists>s'. peer_arrive host em i hdr s = Inr s' \<and> peer_ready host em n s' \<and>
     filter (is_read i) (srv_pending s') = [PeerReadBody i k] \<and> not_reads i s' = not_reads i s \<and>
     peer_ids s' = peer_ids s \<and> srv_out s' = srv_out s"
proof -
  from assms(1) have r: "srv_reachable host em s" "\<not> srv_stopped s" "PeerReadHeader i \<in> set (srv_pending s)"
      and room: "length (srv_pending s) + n * length (peer_ids s) < 2 ^ 31"
    by (simp_all add: peer_awaiting_def peer_ready_def)
  from single_read [OF r(1,3), of i] obtain ys zs where
      p: "srv_pending s = ys @ PeerReadHeader i # zs" "first_index (is_read i) (srv_pending s) = length ys"
        "filter (is_read i) ys = []" "filter (is_read i) zs = []" "\<forall>y \<in> set ys \<union> set zs. \<not> is_read i y"
    by (auto elim: filter_single)
  note h = header_verdict_Inr [OF assms(2,3)]
  have "completion_ok (length ys) Success hdr s"
    using r(2) p(1) assms(2) by (simp add: completion_ok_def segm_header_length_def)
  moreover have "few_operations s" using room by (simp add: few_operations_def)
  ultimately obtain s' where s': "srv_complete host em (length ys) Success hdr s = Inr s'"
      "srv_reachable host em s'" "srv_pending s' = ys @ zs @ [PeerReadBody i k]"
      "peer_ids s' = peer_ids s" "srv_stopped s' = srv_stopped s" "srv_out s' = srv_out s"
    using header_step [OF r(1), of "length ys" hdr i] h p(1) by auto
  then show ?thesis
    using p r(2) room by (auto simp: peer_arrive_def peer_ready_def not_reads_def)
qed

lemma peer_body_arrives:
  assumes "peer_ready host em (Suc n) s" and "filter (is_read i) (srv_pending s) = [PeerReadBody i (length body)]"
  shows "\<exists>s'. peer_arrive host em i body s = Inr s' \<and> peer_awaiting host em i n s' \<and>
     not_reads i s' = not_reads i s @
       map (\<lambda>j. PeerSend j (segm_header_bytes (of_nat (length body + 4)) @ body)) (peer_ids s) \<and>
     peer_ids s' = peer_ids s \<and> srv_out s' = srv_out s @ [LogReceivedFrom i]"
proof -
  from assms(1) have r: "srv_reachable host em s" "\<not> srv_stopped s"
      and room: "length (srv_pending s) + Suc n * length (peer_ids s) < 2 ^ 31"
    by (simp_all add: peer_ready_def)
  from assms(2) obtain ys zs where
      p: "srv_pending s = ys @ PeerReadBody i (length body) # zs"
        "first_index (is_read i) (srv_pending s) = length ys"
        "filter (is_read i) ys = []" "filter (is_read i) zs = []" "\<forall>y \<in> set ys \<union> set zs. \<not> is_read i y"
    by (rule filter_single) blast
  have "completion_ok (length ys) Success body s"
    using r(2) p(1) by (simp add: completion_ok_def)
  moreover have "few_operations s" using room by (simp add: few_operations_def)
  ultimately obtain s' where s': "srv_complete host em (length ys) Success body s = Inr s'"
      "srv_pending s' = ys @ zs @ map (\<lambda>j. PeerSend j (segm_header_bytes (of_nat (length body + 4)) @ body))
         (peer_ids s) @ [PeerReadHeader i]"
      "srv_reachable host em s'" "peer_ids s' = peer_ids s" "srv_stopped s' = srv_stopped s"
      "srv_out s' = srv_out s @ [LogReceivedFrom i]"
    using relay_step_header [OF r(1), of "length ys" body i "length body"] p(1) by auto
  then show ?thesis
    using p r(2) room
    by (auto simp: peer_arrive_def peer_ready_def peer_awaiting_def not_reads_def filter_map comp_def)
qed

lemma peer_header_refused:
  assumes "peer_awaiting host em i n s" and "length hdr = 4" and "header_verdict hdr = Inl why"
  shows "peer_refused i hdr s (peer_arrive host em i hdr s)"
proof -
  from assms(1) have r: "srv_reachable host em s" "\<not> srv_stopped s" "PeerReadHeader i \<in> set (srv_pending s)"
      and room: "length (srv_pending s) + n * length (peer_ids s) < 2 ^ 31"
    by (simp_all add: peer_awaiting_def peer_ready_def)
  from single_read [OF r(1,3), of i] obtain ys zs where
      p: "srv_pending s = ys @ PeerReadHeader i # zs" "first_index (is_read i) (srv_pending s) = length ys"
    by (auto elim: filter_single)
  have c: "completion_ok (length ys) Success hdr s" "few_operations s" "srv_pending s ! length ys = PeerReadHeader i"
    using r(2) p(1) assms(2) room by (simp_all add: completion_ok_def segm_header_length_def few_operations_def)
  show ?thesis
  proof (cases "hdr ! 0 \<noteq> 0x80 \<or> hdr ! 3 \<noteq> 0 \<or> 0x8FFF < packet_length hdr")
    case True
    from bad_header_step [OF r(1) c True] obtain s' where
        "srv_complete host em (length ys) Success hdr s = Inr s'" "errored (srv_out s') i" "reads i (srv_pending s') = 0"
      by blast
    with True p(2) show ?thesis
      using peer_want_none by (auto simp: peer_refused_def peer_arrive_def header_verdict_cases [OF assms(2)])
  next
    case False
    with assms(3) have short: "packet_length hdr < 4"
      by (simp add: header_verdict_cases [OF assms(2)] split: if_splits)
    have "refines (srv_complete host em (length ys) Success hdr s) (spec_complete em (length ys) Success hdr (spec_of s))"
      by (rule srv_complete_refines_spec [OF srv_reachable_rep [OF r(1)] c(1,2)])
    moreover have "spec_complete em (length ys) Success hdr (spec_of s) = Inl (Throw LengthError)"
      using False short by (simp add: spec_complete_def spec_of_def spec_header_def c(3))
    ultimately have "srv_complete host em (length ys) Success hdr s = Inl (Throw LengthError)"
      by (cases "srv_complete host em (length ys) Success hdr s") auto
    with False short p(2) show ?thesis
      by (auto simp: peer_refused_def peer_arrive_def header_verdict_cases [OF assms(2)])
  qed
qed

interpretation peer_reader: packet_reader "peer_want i" "peer_arrive host em i" "peer_awaiting host em i"
    "\<lambda>_. True" "peer_consumed i" "peer_refused i" for i host em
proof unfold_locales
  fix n s
  assume "peer_awaiting host em i n s"
  then show "peer_want i s = Some 4"
    using peer_want_single [OF single_read, of host em s "PeerReadHeader i" i]
    by (simp add: peer_awaiting_def peer_ready_def)
next
  fix n s hdr k
  assume "peer_awaiting host em i n s" "length hdr = 4" "header_verdict hdr = Inr k"
  from peer_header_arrives [OF this] show "\<exists>s1. peer_arrive host em i hdr s = Inr s1 \<and> peer_want i s1 = Some k"
    using peer_want_single by fastforce
next
  fix n s hdr s1 and body :: "byte list"
  assume a: "peer_awaiting host em i (Suc n) s" "length hdr = 4" "header_verdict hdr = Inr (length body)"
    "peer_arrive host em i hdr s = Inr s1"
  from peer_header_arrives [OF a(1-3)] a(4) have s1: "peer_ready host em (Suc n) s1"
      "filter (is_read i) (srv_pending s1) = [PeerReadBody i (length body)]" "not_reads i s1 = not_reads i s"
      "peer_ids s1 = peer_ids s" "srv_out s1 = srv_out s"
    by auto
  have hdr: "segm_header_bytes (of_nat (length body + 4)) = hdr"
    using segm_header_bytes_packet_length [OF a(2)] header_verdict_Inr [OF a(2,3)] by simp
  from peer_body_arrives [OF s1(1,2)] s1 show "\<exists>s2. peer_arrive host em i body s1 = Inr s2 \<and>
      peer_awaiting host em i n s2 \<and> peer_consumed i (hdr @ body) s s2"
    unfolding hdr by (auto simp: peer_consumed_def)
next
  fix n s hdr why
  assume "peer_awaiting host em i n s" "length hdr = 4" "header_verdict hdr = Inl why"
  then show "peer_refused i hdr s (peer_arrive host em i hdr s)" by (rule peer_header_refused)
qed

section \<open>Streams\<close>

definition relays :: "connection_id list \<Rightarrow> byte list list \<Rightarrow> srv_op list" where
  "relays peers ps = concat (map (\<lambda>p. map (\<lambda>j. PeerSend j p) peers) ps)"

lemma peer_chain:
  "chain (peer_consumed i) ps s t \<Longrightarrow>
   not_reads i t = not_reads i s @ relays (peer_ids s) ps \<and> peer_ids t = peer_ids s \<and>
   srv_out t = srv_out s @ replicate (length ps) (LogReceivedFrom i)"
proof (induction ps arbitrary: s)
  case Nil
  then show ?case by (simp add: relays_def)
next
  case (Cons p ps)
  then obtain u where u: "peer_consumed i p s u" "chain (peer_consumed i) ps u t" by auto
  from u(1) have "not_reads i u = not_reads i s @ map (\<lambda>j. PeerSend j p) (peer_ids s)" "peer_ids u = peer_ids s"
      "srv_out u = srv_out s @ [LogReceivedFrom i]"
    by (simp_all add: peer_consumed_def)
  with Cons.IH [OF u(2)] show ?case by (simp add: relays_def)
qed

text \<open>
  C4. The server finds in the byte stream of a peer exactly the packets the
  reference parser finds, and queues each of them, unchanged and in order, for
  every connected peer; an incomplete packet changes nothing else.  At the
  first header the parser refuses, the server reports an error of the connection
  and reads no more from it, except that a header announcing less than itself
  ends the server with an uncaught exception.
\<close>

theorem server_relays_stream:
  assumes "peer_awaiting host em i (length (fst (frames bs))) s"
  shows "case snd (frames bs) of
       Incomplete r \<Rightarrow>
         (\<exists>t rest. feeds (peer_want i) (peer_arrive host em i) bs s (Inr t) rest \<and>
            not_reads i t = not_reads i s @ relays (peer_ids s) (fst (frames bs)) \<and>
            peer_ids t = peer_ids s \<and>
            srv_out t = srv_out s @ replicate (length (fst (frames bs))) (LogReceivedFrom i))
     | Refused why r \<Rightarrow>
         if why = exn_what LengthError
         then feeds (peer_want i) (peer_arrive host em i) bs s (Inl (Throw LengthError)) (drop 4 r)
         else \<exists>t. feeds (peer_want i) (peer_arrive host em i) bs s (Inr t) (drop 4 r) \<and> errored (srv_out t) i"
proof -
  have any: "list_all (\<lambda>_. True) (fst (frames bs))" by (simp add: list_all_iff)
  from peer_reader.stream_feeds [OF assms any] obtain t where
      t: "chain (peer_consumed i) (fst (frames bs)) s t" "peer_awaiting host em i 0 t" and
      e: "case snd (frames bs) of
        Incomplete r \<Rightarrow>
          if length r < 4 then feeds (peer_want i) (peer_arrive host em i) bs s (Inr t) r
          else \<exists>t1. peer_arrive host em i (take 4 r) t = Inr t1 \<and>
            feeds (peer_want i) (peer_arrive host em i) bs s (Inr t1) (drop 4 r)
      | Refused why r \<Rightarrow> peer_refused i (take 4 r) t (peer_arrive host em i (take 4 r) t) \<and>
          (\<forall>t1 res rest. peer_arrive host em i (take 4 r) t = Inr t1 \<longrightarrow>
             feeds (peer_want i) (peer_arrive host em i) (drop 4 r) t1 res rest \<longrightarrow>
             feeds (peer_want i) (peer_arrive host em i) bs s res rest) \<and>
          (\<forall>f. peer_arrive host em i (take 4 r) t = Inl f \<longrightarrow>
             feeds (peer_want i) (peer_arrive host em i) bs s (Inl f) (drop 4 r))"
    by blast
  note ch = peer_chain [OF t(1)]
  show ?thesis
  proof (cases "snd (frames bs)")
    case (Incomplete r)
    show ?thesis
    proof (cases "length r < 4")
      case True
      with e Incomplete ch show ?thesis by auto
    next
      case False
      with e Incomplete obtain t1 where
          t1: "peer_arrive host em i (take 4 r) t = Inr t1"
            "feeds (peer_want i) (peer_arrive host em i) bs s (Inr t1) (drop 4 r)" by auto
      from frames_end [of bs] Incomplete False obtain k where "header_verdict (take 4 r) = Inr k" by auto
      with peer_header_arrives [OF t(2), of "take 4 r"] False t1(1)
      have "not_reads i t1 = not_reads i t" "peer_ids t1 = peer_ids t" "srv_out t1 = srv_out t" by auto
      with t1 ch Incomplete show ?thesis by auto
    qed
  next
    case (Refused why r)
    from frames_end [of bs] Refused have v: "header_verdict (take 4 r) = Inl why" by simp
    show ?thesis
    proof (cases "why = exn_what LengthError")
      case True
      with e Refused v show ?thesis by (simp add: peer_refused_def)
    next
      case False
      with e Refused v obtain t1 where t1: "peer_arrive host em i (take 4 r) t = Inr t1"
          "errored (srv_out t1) i" "peer_want i t1 = None" by (auto simp: peer_refused_def)
      have "feeds (peer_want i) (peer_arrive host em i) (drop 4 r) t1 (Inr t1) (drop 4 r)"
        by (rule feeds_stop) (simp add: t1(3))
      with e Refused t1 False show ?thesis by auto
    qed
  qed
qed

lemma server_relays_stream_witness:
  "\<exists>t rest. feeds (peer_want 1) (peer_arrive LittleEndian demo_log 1) [0x80, 5, 0, 0, 7, 0x80, 4, 0, 0, 0x80]
       demo_two (Inr t) rest \<and>
     not_reads 1 t = not_reads 1 demo_two @
       [PeerSend 1 [0x80, 5, 0, 0, 7], PeerSend 2 [0x80, 5, 0, 0, 7],
        PeerSend 1 [0x80, 4, 0, 0], PeerSend 2 [0x80, 4, 0, 0]]"
proof -
  have "header_verdict [0x80, 5, 0, 0] = Inr 1" "header_verdict [0x80, 4, 0, 0] = Inr 0"
    by (simp_all add: header_verdict_cases packet_length_def)
  then have fr: "frames [0x80, 5, 0, 0, 7, 0x80, 4, 0, 0, 0x80] =
      ([[0x80, 5, 0, 0, 7], [0x80, 4, 0, 0]], Incomplete [0x80])"
    by (simp add: frames.simps)
  have "peer_awaiting LittleEndian demo_log 1 (length (fst (frames [0x80, 5, 0, 0, 7, 0x80, 4, 0, 0, 0x80]))) demo_two"
      and "peer_ids demo_two = [1, 2]"
    using demo_reachable(2)
    by (simp_all add: fr peer_awaiting_def peer_ready_def demo_two_def peer_ids_def map_keys_def)
  from server_relays_stream [OF this(1)] this(2) show ?thesis by (auto simp: fr relays_def)
qed

end
