(* ===== verification/ServerOrder.thy ===== *)
theory ServerOrder
  imports ServerInv "HOL-Library.Sublist"
begin

text \<open>
  The order in which the server relays: over any run of the server all peers
  get the same packets in the same order, each received message once.
\<close>

section \<open>What the server sends to a peer\<close>

definition sends_to :: "connection_id \<Rightarrow> srv_op list \<Rightarrow> byte list list" where
  "sends_to j ops = concat (map (\<lambda>op. case op of PeerSend i d \<Rightarrow> if i = j then [d] else [] | _ \<Rightarrow> []) ops)"

lemma sends_to_append: "sends_to j (ops @ ops') = sends_to j ops @ sends_to j ops'"
  by (simp add: sends_to_def)

lemma sends_to_simps [simp]:
  "sends_to j [] = []" "sends_to j (Accept # ops) = sends_to j ops"
  "sends_to j (PeerReadHeader i # ops) = sends_to j ops"
  "sends_to j (PeerReadBody i n # ops) = sends_to j ops"
  "sends_to j (PeerSend i d # ops) = (if i = j then [d] else []) @ sends_to j ops"
  by (simp_all add: sends_to_def)

lemma sends_to_each: "distinct is \<Longrightarrow> sends_to j (map (\<lambda>i. PeerSend i d) is) = (if j \<in> set is then [d] else [])"
  by (induction "is") auto

lemma distinct_peer_ids: "srv_reachable host em s \<Longrightarrow> distinct (peer_ids s)"
  using srv_reachable_rep [of host em s]
  by (simp add: srv_rep_def srv_inv_def map_sorted_def peer_ids_def strict_sorted_iff)

section \<open>Runs\<close>

text \<open>The operations a step starts: a step removes the one it completes and appends new ones.\<close>

definition srv_started :: "server \<Rightarrow> server \<Rightarrow> srv_op list" where
  "srv_started s s' = drop (length (srv_pending s) - 1) (srv_pending s')"

text \<open>\<open>srv_run s hist t\<close>: a run from \<open>s\<close> to \<open>t\<close> that starts the operations \<open>hist\<close>.\<close>

inductive srv_run ::
  "endianness \<Rightarrow> (error_code \<Rightarrow> string) \<Rightarrow> server \<Rightarrow> srv_op list \<Rightarrow> server \<Rightarrow> bool"
  for host em where
  run_done: "srv_run host em s [] s"
| run_step: "srv_step host em s u \<Longrightarrow> srv_run host em u hist t \<Longrightarrow>
    srv_run host em s (srv_started s u @ hist) t"

definition received :: "srv_log list \<Rightarrow> nat" where
  "received out = length (filter (\<lambda>l. case l of LogReceivedFrom i \<Rightarrow> True | _ \<Rightarrow> False) out)"

lemma received_append: "received (out @ out') = received out + received out'"
  by (simp add: received_def)

lemma received_simps [simp]:
  "received [LogReceivedFrom i] = 1" "received [LogConnectionError i msg] = 0"
  "received [LogAcceptFailed msg] = 0" "received [LogNewClient] = 0"
  by (simp_all add: received_def)

text \<open>
  \<open>relays_evenly a new a'\<close>: of the operations \<open>new\<close> a step of the specification
  starts, all peers get the same packets, one for each message received.
\<close>

definition relays_evenly :: "server_spec \<Rightarrow> srv_op list \<Rightarrow> server_spec \<Rightarrow> bool" where
  "relays_evenly a new a' \<longleftrightarrow>
     (\<exists>ps. (\<forall>j \<in> set (spec_peers (sp_pending a)). sends_to j new = ps) \<and>
        received (sp_out a') = received (sp_out a) + length ps) \<and>
     (\<forall>j. j \<notin> set (spec_peers (sp_pending a)) \<longrightarrow> sends_to j new = []) \<and>
     (\<forall>op \<in> set new. \<forall>j. op_peer op = Some j \<longrightarrow>
        j \<in> set (spec_peers (sp_pending a)) \<or> sp_conn_id a < j) \<and>
     sp_conn_id a \<le> sp_conn_id a'"

lemma distinct_spec_peers: "distinct (spec_peers ops)"
  by (simp add: spec_peers_def)

lemma spec_fail_simps [simp]:
  "sp_pending (spec_fail i msg a) = sp_pending a" "sp_conn_id (spec_fail i msg a) = sp_conn_id a"
  "received (sp_out (spec_fail i msg a)) = received (sp_out a)"
  by (simp_all add: spec_fail_def spec_print_def received_append)

lemma spec_take_simps [simp]:
  "sp_out (spec_take k a) = sp_out a" "sp_conn_id (spec_take k a) = sp_conn_id a"
  "sp_pending (spec_take k a) = take k (sp_pending a) @ drop (Suc k) (sp_pending a)"
  by (simp_all add: spec_take_def)

lemma relays_nothing:
  "received (sp_out a') = received (sp_out a) \<Longrightarrow> sp_conn_id a \<le> sp_conn_id a' \<Longrightarrow> relays_evenly a [] a'"
  by (simp add: relays_evenly_def)

lemma spec_step_started:
  assumes "spec_complete em k err data a = Inr a'" and "k < length (sp_pending a)"
  shows "\<exists>new. sp_pending a' = take k (sp_pending a) @ drop (Suc k) (sp_pending a) @ new \<and> relays_evenly a new a'"
proof -
  have peer: "i \<in> set (spec_peers (sp_pending a))" if "op_peer (sp_pending a ! k) = Some i" for i
    using that assms(2) by (auto simp: set_spec_peers)
  show ?thesis
  proof (cases "sp_pending a ! k")
    case Accept
    have "relays_evenly a [PeerReadHeader (sp_conn_id a + 1), Accept] a'"
      if "received (sp_out a') = received (sp_out a)" "sp_conn_id a' = sp_conn_id a + 1"
      using that by (simp add: relays_evenly_def)
    with Accept assms(1) show ?thesis
      using relays_nothing [of a' a]
      by (auto simp: spec_complete_def spec_accept_def Let_def spec_print_def spec_start_def received_append
          split: if_splits)
  next
    case (PeerReadHeader i)
    with peer [of i] have "i \<in> set (spec_peers (sp_pending a))" by simp
    then have "relays_evenly a [PeerReadBody i n] a'"
      if "received (sp_out a') = received (sp_out a)" "sp_conn_id a' = sp_conn_id a" for n
      using that by (simp add: relays_evenly_def)
    with PeerReadHeader assms(1) show ?thesis
      using relays_nothing [of a' a]
      by (auto simp: spec_complete_def spec_header_def spec_start_def split: if_splits)
  next
    case (PeerReadBody i n)
    with peer [of i] have i: "i \<in> set (spec_peers (sp_pending a))" by simp
    let ?p = "segm_header_bytes (of_nat (length data + 4)) @ data"
    let ?new = "map (\<lambda>j. PeerSend j ?p) (spec_peers (sp_pending a)) @ [PeerReadHeader i]"
    show ?thesis
    proof (cases "err = Success")
      case True
      with PeerReadBody assms(1)
      have a': "a' = spec_start ?new (spec_print (LogReceivedFrom i) (spec_take k a))"
        by (simp add: spec_complete_def spec_body_def)
      have "relays_evenly a ?new a'"
        using i by (auto simp: relays_evenly_def sends_to_append sends_to_each distinct_spec_peers a'
            spec_start_def spec_print_def received_append intro!: exI [of _ "[?p]"])
      with a' show ?thesis by (auto simp: spec_start_def spec_print_def)
    next
      case False
      with PeerReadBody assms(1) show ?thesis
        using relays_nothing [of a' a] by (auto simp: spec_complete_def spec_body_def)
    qed
  next
    case (PeerSend i d)
    with assms(1) show ?thesis
      using relays_nothing [of a' a] by (auto simp: spec_complete_def split: if_splits)
  qed
qed

lemma step_started:
  assumes "srv_reachable host em s" and "srv_step host em s u"
  shows "relays_evenly (spec_of s) (srv_started s u) (spec_of u)"
    and "set (peer_ids u) \<subseteq> set (peer_ids s) \<union> {i. current_conn_id s < i}"
proof -
  from assms(2) obtain k err data where c: "completion_ok k err data s" "few_operations s"
      "srv_complete host em k err data s = Inr u"
    by (elim srv_stepE)
  from c(1) have k: "k < length (sp_pending (spec_of s))" by (simp add: completion_ok_def spec_of_def)
  from spec_step_started [OF srv_step_refines(2) [OF srv_reachable_rep [OF assms(1)] c] k] obtain new where
      new: "sp_pending (spec_of u) = take k (sp_pending (spec_of s)) @ drop (Suc k) (sp_pending (spec_of s)) @ new"
        "relays_evenly (spec_of s) new (spec_of u)" by blast
  have "length (take k (srv_pending s) @ drop (Suc k) (srv_pending s)) = length (srv_pending s) - 1"
    using k by (simp add: spec_of_def)
  then have "srv_started s u = new"
    using new(1) by (simp add: srv_started_def spec_of_def)
  with new(2) show "relays_evenly (spec_of s) (srv_started s u) (spec_of u)" by simp
  have ids: "set (peer_ids r) = set (spec_peers (srv_pending r))" if "srv_reachable host em r" for r
    using peer_ids_spec [of "\<lambda>_. 0" r "{}" "srv_pending r"] srv_reachable_rep [OF that] by (simp add: srv_rep_def)
  have "srv_reachable host em u" using assms by (rule srv_reachable.step)
  with new show "set (peer_ids u) \<subseteq> set (peer_ids s) \<union> {i. current_conn_id s < i}"
    using set_take_subset [of k "srv_pending s"] set_drop_subset [of "Suc k" "srv_pending s"]
    by (auto simp: ids assms(1) set_spec_peers spec_of_def relays_evenly_def)
qed

lemma peer_id_given: "srv_reachable host em s \<Longrightarrow> j \<in> set (peer_ids s) \<Longrightarrow> j \<le> current_conn_id s"
  using srv_reachable_rep [of host em s] by (simp add: srv_rep_def srv_inv_def)

lemma step_conn_id:
  "srv_reachable host em s \<Longrightarrow> srv_step host em s u \<Longrightarrow> current_conn_id s \<le> current_conn_id u"
  using step_started(1) [of host em s u] by (simp add: relays_evenly_def spec_of_def)

text \<open>A peer that has gone never comes back: identifiers are not used again.\<close>

lemma gone_for_good:
  assumes "srv_run host em s hist t" and "srv_reachable host em s"
    and "j \<notin> set (peer_ids s)" and "j \<le> current_conn_id s"
  shows "j \<notin> set (peer_ids t) \<and> sends_to j hist = []"
  using assms
proof (induction rule: srv_run.induct)
  case (run_done s)
  then show ?case by simp
next
  case (run_step s u hist t)
  have "srv_reachable host em u" using run_step.prems(1) run_step.hyps(1) by (rule srv_reachable.step)
  moreover have "j \<notin> set (peer_ids u)"
    using step_started(2) [OF run_step.prems(1) run_step.hyps(1)] run_step.prems(2,3) by auto
  moreover have "j \<le> current_conn_id u"
    using step_conn_id [OF run_step.prems(1) run_step.hyps(1)] run_step.prems(3) by simp
  ultimately have rest: "j \<notin> set (peer_ids t) \<and> sends_to j hist = []" by (rule run_step.IH)
  have "set (peer_ids s) = set (spec_peers (srv_pending s))"
    using peer_ids_spec [of "\<lambda>_. 0" s "{}" "srv_pending s"] srv_reachable_rep [OF run_step.prems(1)]
    by (simp add: srv_rep_def)
  with step_started(1) [OF run_step.prems(1) run_step.hyps(1)] run_step.prems(2)
  have "sends_to j (srv_started s u) = []" by (simp add: relays_evenly_def spec_of_def)
  with rest show ?case by (simp add: sends_to_append)
qed

lemma run_order:
  assumes "srv_run host em s hist t" and "srv_reachable host em s"
    and "j \<in> set (peer_ids s)" and "j' \<in> set (peer_ids s)" and "j' \<in> set (peer_ids t)"
  shows "prefix (sends_to j hist) (sends_to j' hist) \<and>
     received (srv_out t) = received (srv_out s) + length (sends_to j' hist)"
  using assms
proof (induction arbitrary: j rule: srv_run.induct)
  case (run_done s)
  then show ?case by simp
next
  case (run_step s u hist t)
  note r = run_step.prems(1) and st = run_step.hyps(1)
  have u: "srv_reachable host em u" using r st by (rule srv_reachable.step)
  have le: "j' \<le> current_conn_id u" "j \<le> current_conn_id u"
    using peer_id_given [OF r] run_step.prems(2,3) step_conn_id [OF r st] by force+
  with gone_for_good [OF run_step.hyps(2) u] run_step.prems(4) have in_u: "j' \<in> set (peer_ids u)" by blast
  have "set (peer_ids s) = set (spec_peers (srv_pending s))"
    using peer_ids_spec [of "\<lambda>_. 0" s "{}" "srv_pending s"] srv_reachable_rep [OF r] by (simp add: srv_rep_def)
  with step_started(1) [OF r st] run_step.prems(2,3) obtain ps where
      ps: "sends_to j (srv_started s u) = ps" "sends_to j' (srv_started s u) = ps"
        "received (srv_out u) = received (srv_out s) + length ps"
    by (auto simp: relays_evenly_def spec_of_def)
  show ?case
  proof (cases "j \<in> set (peer_ids u)")
    case True
    from run_step.IH [OF u this in_u run_step.prems(4)] ps show ?thesis by (simp add: sends_to_append)
  next
    case False
    from run_step.IH [OF u in_u in_u run_step.prems(4)] gone_for_good [OF run_step.hyps(2) u False le(2)] ps
    show ?thesis by (simp add: sends_to_append)
  qed
qed

text \<open>
  C2. All peers see one conversation.  Over any run of the server, in which
  messages of several senders arrive in any order, connections come and go and
  operations fail, two peers that are connected from beginning to end are sent
  the same packets in the same order, one for each message received in the run;
  a peer that is lost on the way was sent the first of them.
\<close>

theorem one_order_for_all:
  assumes "srv_reachable host em s" and "srv_run host em s hist t"
    and "j \<in> set (peer_ids s)" and "j' \<in> set (peer_ids s)" and "j' \<in> set (peer_ids t)"
  shows "prefix (sends_to j hist) (sends_to j' hist) \<and>
     (j \<in> set (peer_ids t) \<longrightarrow> sends_to j hist = sends_to j' hist) \<and>
     received (srv_out t) = received (srv_out s) + length (sends_to j' hist)"
  using run_order [OF assms(2,1,3-5)] run_order [OF assms(2,1,4,3)] by (auto intro: prefix_order.antisym)

lemma one_order_for_all_witness:
  "\<exists>hist t. srv_run LittleEndian demo_log demo_two hist t \<and> 1 \<in> set (peer_ids t) \<and> 2 \<in> set (peer_ids t) \<and>
     sends_to 1 hist = sends_to 2 hist \<and> length (sends_to 2 hist) = 1"
proof -
  have "completion_ok 2 Success [7, 8] demo_body" "few_operations demo_body"
      "srv_pending demo_body ! 2 = PeerReadBody 1 2"
    by (simp_all add: srv_eval)
  from relay_step_header [OF demo_reachable(3) this] obtain t where
      t: "srv_complete LittleEndian demo_log 2 Success [7, 8] demo_body = Inr t"
        "peer_ids t = peer_ids demo_body" "srv_out t = srv_out demo_body @ [LogReceivedFrom 1]"
    by blast
  have 1: "srv_step LittleEndian demo_log demo_two demo_body"
    by (rule srv_step.complete [OF _ _ demo_body_step]) (simp_all add: srv_eval)
  have 2: "srv_step LittleEndian demo_log demo_body t"
    by (rule srv_step.complete [OF _ _ t(1)]) (simp_all add: srv_eval)
  from run_step [OF 1 run_step [OF 2 run_done]] obtain hist where
      run: "srv_run LittleEndian demo_log demo_two hist t" by blast
  have "peer_ids demo_two = [1, 2]" "peer_ids demo_body = [1, 2]"
    by (simp_all add: demo_two_def demo_body_def peer_ids_def map_keys_def)
  then have ids: "peer_ids demo_two = [1, 2]" "peer_ids t = [1, 2]" by (simp_all add: t(2))
  have "received (srv_out t) = received (srv_out demo_two) + 1"
    by (simp add: t(3) demo_two_def demo_body_def received_def)
  with one_order_for_all [OF demo_reachable(2) run, of 1 2] ids
  have "1 \<in> set (peer_ids t) \<and> 2 \<in> set (peer_ids t) \<and> sends_to 1 hist = sends_to 2 hist \<and>
      length (sends_to 2 hist) = 1" by simp
  with run show ?thesis by blast
qed

end
