(* ===== verification/Conversation.thy ===== *)
theory Conversation
  imports ClientStream ServerStream ServerOrder
begin

text \<open>
  Whole conversations: the messages of one sender, through the byte streams
  to and from the server, to the applications of the receivers.
\<close>

section \<open>A sender\<close>

fun process_events ::
  "endianness \<Rightarrow> thread_start \<Rightarrow> cn_event list \<Rightarrow> clientnode_machine \<Rightarrow> clientnode_machine result" where
  "process_events host ts [] m = Inr m"
| "process_events host ts (e # es) m = rbind (process_event host ts e m) (process_events host ts es)"

lemma messages_are_written:
  assumes "cm_state m = StateConnected" and "\<forall>msg \<in> set msgs. num_size msg + 4 \<le> vector_max_size"
  shows "\<exists>m'. process_events host ts (map EvtSendMsg msgs) m = Inr m' \<and> cm_state m' = StateConnected \<and>
     cm_signals m' = cm_signals m \<and>
     cm_pending m' = cm_pending m @ map OpWrite (map (segm_wire num_wire) msgs)"
  using assms
proof (induction msgs arbitrary: m)
  case Nil
  then show ?case by simp
next
  case (Cons msg msgs)
  from process_event_effect [of m "EvtSendMsg msg" host ts] Cons.prems obtain m1 where
      m1: "process_event host ts (EvtSendMsg msg) m = Inr m1" "cm_state m1 = StateConnected"
        "cm_signals m1 = cm_signals m" "cm_pending m1 = cm_pending m @ [OpWrite (segm_wire num_wire msg)]"
    by (auto simp: evolves_def)
  from Cons.IH [OF m1(2)] Cons.prems(2) m1 show ?case by auto
qed

lemma message_packet:
  assumes "num_size msg + 4 \<le> 0x8FFF"
  shows "framed (segm_wire num_wire msg)" and "4 < length (segm_wire num_wire msg)"
  using assms by (auto simp: length_num_wire length_segm_wire num_size_def intro!: framed_segm_wire)

lemma message_signals: "concat (map packet_signals (map (segm_wire num_wire) msgs)) = map RcvMessage msgs"
  by (induction msgs) (simp_all add: packet_signals_message)

section \<open>The server\<close>

lemma sends_to_relays: "distinct is \<Longrightarrow> j \<in> set is \<Longrightarrow> sends_to j (relays is ps) = ps"
  by (induction ps) (simp_all add: relays_def sends_to_append sends_to_each)

lemma sends_to_not_reads: "sends_to j (not_reads i s) = sends_to j (srv_pending s)"
proof -
  have "sends_to j (filter (\<lambda>op. \<not> is_read i op) ops) = sends_to j ops" for ops
    by (induction ops) (auto simp: is_read_def split: srv_op.split)
  then show ?thesis by (simp add: not_reads_def)
qed

lemma stream_is_relayed:
  assumes "peer_awaiting host em i (length ps) s" and "list_all framed ps"
  shows "\<exists>t. feeds (peer_want i) (peer_arrive host em i) (concat ps) s (Inr t) [] \<and>
     peer_ids t = peer_ids s \<and>
     (\<forall>j \<in> set (peer_ids s). sends_to j (srv_pending t) = sends_to j (srv_pending s) @ ps)"
proof -
  have any: "list_all (\<lambda>_. True) ps" by (simp add: list_all_iff)
  from peer_reader.packets_feed [OF _ assms(2) any, of host em i 0 s] assms(1) obtain t where
      t: "peer_awaiting host em i 0 t" "chain (peer_consumed i) ps s t"
        "\<And>bs r rest. feeds (peer_want i) (peer_arrive host em i) bs t r rest \<Longrightarrow>
           feeds (peer_want i) (peer_arrive host em i) (concat ps @ bs) s r rest"
    by auto
  from peer_reader.partial_header_feeds [OF t(1), of "[]"]
  have "feeds (peer_want i) (peer_arrive host em i) [] t (Inr t) []" by simp
  from t(3) [OF this] have run: "feeds (peer_want i) (peer_arrive host em i) (concat ps) s (Inr t) []" by simp
  note ch = peer_chain [OF t(2)]
  from assms(1) have "srv_reachable host em s" by (simp add: peer_awaiting_def peer_ready_def)
  then have "distinct (peer_ids s)" by (rule distinct_peer_ids)
  then have "sends_to j (srv_pending t) = sends_to j (srv_pending s) @ ps" if "j \<in> set (peer_ids s)" for j
    using ch that sends_to_not_reads [of j i t] sends_to_not_reads [of j i s]
    by (simp add: sends_to_append sends_to_relays)
  with run ch show ?thesis by blast
qed

text \<open>
  C1. What a connected client says, every client hears.  The messages it sends
  one after the other become packets; the server, given these bytes on the
  connection of the client, finds the packets again and queues them, in order,
  for every connected peer; and a connected client that is given the bytes
  queued for its peer hands exactly these messages, in this order, to its
  application and stays connected.  The byte orders of the three machines may
  differ.
\<close>

theorem conversation:
  assumes "cm_state a = StateConnected" and "\<forall>msg \<in> set msgs. num_size msg + 4 \<le> 0x8FFF"
    and "peer_awaiting host em i (length msgs) s"
    and "j \<in> set (peer_ids s)" and "sends_to j (srv_pending s) = []"
    and "cm_awaiting 0 b"
  shows "\<exists>a' packets t b'.
     process_events host_a ts (map EvtSendMsg msgs) a = Inr a' \<and>
     cm_pending a' = cm_pending a @ map OpWrite packets \<and>
     feeds (peer_want i) (peer_arrive host em i) (concat packets) s (Inr t) [] \<and>
     feeds cm_want (cm_arrive host_b em ts) (concat (sends_to j (srv_pending t))) b (Inr b') [] \<and>
     cm_signals b' = cm_signals b @ map RcvMessage msgs \<and> cm_state b' = StateConnected"
proof -
  define packets where "packets = map (segm_wire num_wire) msgs"
  have "\<forall>msg \<in> set msgs. num_size msg + 4 \<le> vector_max_size"
    using assms(2) by (auto simp: vector_max_size_def)
  from messages_are_written [OF assms(1) this, of host_a ts, folded packets_def] obtain a' where
      a': "process_events host_a ts (map EvtSendMsg msgs) a = Inr a'"
        "cm_pending a' = cm_pending a @ map OpWrite packets" by blast
  have packets: "list_all framed packets" "list_all (\<lambda>p. 4 < length p) packets"
    using assms(2) message_packet by (auto simp: list_all_iff packets_def)
  have "peer_awaiting host em i (length packets) s" using assms(3) by (simp add: packets_def)
  from stream_is_relayed [OF this packets(1)] assms(4,5) obtain t where
      t: "feeds (peer_want i) (peer_arrive host em i) (concat packets) s (Inr t) []"
        "sends_to j (srv_pending t) = packets"
    by auto
  from packets_are_read [OF assms(6) packets, of host_b em ts] obtain b' where
      b': "feeds cm_want (cm_arrive host_b em ts) (concat packets) b (Inr b') []" "cm_awaiting 0 b'"
        "cm_signals b' = cm_signals b @ concat (map packet_signals packets)"
    by blast
  have "concat (map packet_signals packets) = map RcvMessage msgs"
    unfolding packets_def by (rule message_signals)
  with b'(3) have "cm_signals b' = cm_signals b @ map RcvMessage msgs" by simp
  moreover from b'(2) have "cm_state b' = StateConnected" by (simp add: cm_awaiting_def)
  moreover from b'(1) have "feeds cm_want (cm_arrive host_b em ts) (concat (sends_to j (srv_pending t))) b (Inr b') []"
    by (simp add: t(2))
  ultimately show ?thesis using a' t(1) by blast
qed

lemma conversation_witness:
  "\<exists>a' packets t b'.
     process_events BigEndian ThreadStarted (map EvtSendMsg [demo_message, demo_message])
       (demo_machine StateConnected []) = Inr a' \<and>
     cm_pending a' = [] @ map OpWrite packets \<and>
     feeds (peer_want 1) (peer_arrive LittleEndian demo_log 1) (concat packets) demo_two (Inr t) [] \<and>
     feeds cm_want (cm_arrive BigEndian demo_log ThreadStarted) (concat (sends_to 2 (srv_pending t)))
       (demo_machine StateConnected [OpReadHeader]) (Inr b') [] \<and>
     cm_signals b' = [] @ map RcvMessage [demo_message, demo_message] \<and> cm_state b' = StateConnected"
proof -
  have "peer_awaiting LittleEndian demo_log 1 (length [demo_message, demo_message]) demo_two"
      "2 \<in> set (peer_ids demo_two)" "sends_to 2 (srv_pending demo_two) = []"
    using demo_reachable(2)
    by (simp_all add: peer_awaiting_def peer_ready_def demo_two_def peer_ids_def map_keys_def)
  moreover have "cm_awaiting 0 (demo_machine StateConnected [OpReadHeader])" by (simp add: cm_awaiting_def)
  moreover have "\<forall>msg \<in> set [demo_message, demo_message]. num_size msg + 4 \<le> 0x8FFF"
    using demo_message_size by simp
  ultimately show ?thesis
    using conversation [of "demo_machine StateConnected []" "[demo_message, demo_message]"
        LittleEndian demo_log 1 demo_two 2 "demo_machine StateConnected [OpReadHeader]"
        BigEndian ThreadStarted BigEndian]
    by simp
qed

end
