(* ===== verification/WriteOverlap.thy ===== *)
theory WriteOverlap
  imports Conversation "HOL-Library.Multiset"
begin

text \<open>
  Writes that overlap.  Client and server start a write for every packet without
  waiting for the previous one on the same socket (\<open>StateConnected::react\<close> in
  \<open>statemachine.cpp\<close>, \<open>RemotePeer::sendMessage\<close> in \<open>remotepeer.cpp\<close>).  Of
  \<open>async_write\<close> Boost.Asio documents that it transfers its data by several smaller
  writes, and leaves it to the program that no other write is started meanwhile:
  here the operations in progress transfer their next bytes in any order.
\<close>

section \<open>Writes in progress\<close>

text \<open>What has been put on the wire, and what the operations have left to transfer.\<close>

type_synonym wire = "byte list \<times> byte list list"

inductive transfer :: "wire \<Rightarrow> wire \<Rightarrow> bool" where
  write_some: "k < length ws \<Longrightarrow> ws ! k = data @ left \<Longrightarrow> data \<noteq> [] \<Longrightarrow>
    transfer (sent, ws) (sent @ data, ws[k := left])"

text \<open>All operations complete, with all their data transferred.\<close>

definition on_wire :: "byte list list \<Rightarrow> byte list \<Rightarrow> bool" where
  "on_wire ps bs \<longleftrightarrow> transfer\<^sup>*\<^sup>* ([], ps) (bs, replicate (length ps) [])"

lemma transfer_some:
  "transfer\<^sup>*\<^sup>* (sent @ data, as @ left # bs) w \<Longrightarrow> transfer\<^sup>*\<^sup>* (sent, as @ (data @ left) # bs) w"
proof (cases "data = []")
  case False
  assume run: "transfer\<^sup>*\<^sup>* (sent @ data, as @ left # bs) w"
  have "transfer (sent, as @ (data @ left) # bs) (sent @ data, (as @ (data @ left) # bs)[length as := left])"
    by (rule write_some) (simp_all add: False)
  with run show ?thesis by (simp add: converse_rtranclp_into_rtranclp)
qed simp

lemma transfer_all:
  "transfer\<^sup>*\<^sup>* (sent @ p, as @ [] # bs) w \<Longrightarrow> transfer\<^sup>*\<^sup>* (sent, as @ p # bs) w"
  using transfer_some [of sent p as "[]" bs w] by simp

lemma transfer_in_turn:
  "transfer\<^sup>*\<^sup>* (sent @ concat ps, replicate (k + length ps) [] @ bs) w \<Longrightarrow>
   transfer\<^sup>*\<^sup>* (sent, replicate k [] @ ps @ bs) w"
proof (induction ps arbitrary: sent k)
  case (Cons p ps)
  have "transfer\<^sup>*\<^sup>* (sent @ p, replicate (Suc k) [] @ ps @ bs) w"
    by (rule Cons.IH) (use Cons.prems in simp)
  then show ?case using transfer_all [of sent p "replicate k []" "ps @ bs" w] by (simp add: replicate_append_same [symmetric])
qed simp

text \<open>One write after the other puts the packets on the wire as they are.\<close>

lemma on_wire_in_turn: "on_wire ps (concat ps)"
  using transfer_in_turn [of "[]" ps 0 "[]"] by (simp add: on_wire_def)

text \<open>A second write that starts after three bytes of the first.\<close>

definition garbled :: "nat \<Rightarrow> byte list list \<Rightarrow> byte list" where
  "garbled n ps = concat (take n ps) @ take 3 (ps ! n) @ ps ! Suc n @ drop 3 (ps ! n) @ concat (drop (Suc (Suc n)) ps)"

lemma on_wire_garbled:
  assumes "Suc n < length ps"
  shows "on_wire ps (garbled n ps)"
proof -
  let ?pre = "take n ps" and ?p = "ps ! n" and ?q = "ps ! Suc n" and ?post = "drop (Suc (Suc n)) ps"
  let ?done = "\<lambda>k. replicate k ([] :: byte list)"
  have ps: "?pre @ ?p # ?q # ?post = ps"
    using assms Cons_nth_drop_Suc [of "Suc n" ps] Cons_nth_drop_Suc [of n ps] by (simp only: Suc_lessD append_take_drop_id)
  have len: "n + 2 + length ?post = length ps" "length ?pre = n" using assms by auto
  have two: "?done (n + 2) = ?done n @ [[], []]" by (simp only: replicate_add) (simp add: numeral_2_eq_2)
  have "transfer\<^sup>*\<^sup>* (concat ?pre @ take 3 ?p @ ?q @ drop 3 ?p, ?done (n + 2) @ ?post @ []) (garbled n ps, ?done (length ps))"
    by (rule transfer_in_turn, unfold len(1)) (simp add: garbled_def)
  then have "transfer\<^sup>*\<^sup>* ((concat ?pre @ take 3 ?p @ ?q) @ drop 3 ?p, ?done n @ [] # [] # ?post) (garbled n ps, ?done (length ps))"
    by (simp only: two append_assoc append_Cons append_Nil append_Nil2)
  then have "transfer\<^sup>*\<^sup>* (concat ?pre @ take 3 ?p @ ?q, ?done n @ drop 3 ?p # [] # ?post) (garbled n ps, ?done (length ps))"
    by (rule transfer_all)
  then have "transfer\<^sup>*\<^sup>* ((concat ?pre @ take 3 ?p) @ ?q, (?done n @ [drop 3 ?p]) @ [] # ?post) (garbled n ps, ?done (length ps))"
    by simp
  then have "transfer\<^sup>*\<^sup>* (concat ?pre @ take 3 ?p, ?done n @ drop 3 ?p # ?q # ?post) (garbled n ps, ?done (length ps))"
    using transfer_all [of "concat ?pre @ take 3 ?p" ?q "?done n @ [drop 3 ?p]" ?post] by simp
  from transfer_some [OF this] have "transfer\<^sup>*\<^sup>* (concat ?pre, ?done n @ ?p # ?q # ?post) (garbled n ps, ?done (length ps))"
    by simp
  then have "transfer\<^sup>*\<^sup>* ([], ?done 0 @ ?pre @ ?p # ?q # ?post) (garbled n ps, ?done (length ps))"
    by (intro transfer_in_turn, unfold len(2)) simp
  then show ?thesis by (simp only: ps on_wire_def replicate_0 append_Nil)
qed

text \<open>Nothing is lost or made up on the way, whatever the order.\<close>

lemma transfer_bytes: "transfer w w' \<Longrightarrow> mset (fst w' @ concat (snd w')) = mset (fst w @ concat (snd w))"
proof (induction rule: transfer.induct)
  case (write_some k ws data left sent)
  have "ws = take k ws @ (data @ left) # drop (Suc k) ws"
    using id_take_nth_drop [OF write_some(1)] write_some(2) by simp
  then have "mset (concat ws) = mset (concat (take k ws @ (data @ left) # drop (Suc k) ws))"
    by (rule arg_cong)
  then show ?case using write_some(1) by (simp add: upd_conv_take_nth_drop)
qed

lemma on_wire_bytes: "on_wire ps bs \<Longrightarrow> mset bs = mset (concat ps)"
proof -
  have "mset (fst w' @ concat (snd w')) = mset (fst w @ concat (snd w))" if "transfer\<^sup>*\<^sup>* w w'" for w w'
    using that by (induction rule: rtranclp_induct) (simp_all only: transfer_bytes)
  from this [of "([], ps)" "(bs, replicate (length ps) [])"] show "on_wire ps bs \<Longrightarrow> mset bs = mset (concat ps)"
    by (simp add: on_wire_def)
qed

section \<open>What the receivers make of it\<close>

lemma garbled_header:
  assumes "framed p" and "framed q"
  shows "header_verdict (take 4 (take 3 p @ q @ rest)) = Inl (exn_what InvalidHeaderError)"
proof -
  from assms have len: "4 \<le> length p" "4 \<le> length q" by (simp_all add: framed_def)
  from assms(2) have "take 4 q ! 0 = 0x80"
    using header_verdict_Inr(1) [of "take 4 q" "length q - 4"] by (simp add: framed_def)
  with len have "take 4 (take 3 p @ q @ rest) ! 3 \<noteq> 0" by (simp add: nth_append)
  with len show ?thesis by (simp add: header_verdict_cases)
qed

lemma garbled_stream:
  assumes "list_all framed ps" and "Suc n < length ps"
  obtains bs where "garbled n ps = concat (take n ps) @ bs" "4 \<le> length bs"
    "header_verdict (take 4 bs) = Inl (exn_what InvalidHeaderError)" "list_all framed (take n ps)"
proof (rule that)
  have f: "framed (ps ! n)" "framed (ps ! Suc n)" using assms by (simp_all add: list_all_length)
  let ?bs = "take 3 (ps ! n) @ ps ! Suc n @ drop 3 (ps ! n) @ concat (drop (Suc (Suc n)) ps)"
  show "garbled n ps = concat (take n ps) @ ?bs" by (simp add: garbled_def)
  from f show "4 \<le> length ?bs" by (simp add: framed_def)
  show "header_verdict (take 4 ?bs) = Inl (exn_what InvalidHeaderError)" by (rule garbled_header [OF f])
  show "list_all framed (take n ps)" using assms(1) by (auto simp: list_all_iff dest: in_set_takeD)
qed

lemma server_reads_garbled:
  assumes "peer_awaiting host em i (length ps) s" and "list_all framed ps" and "Suc n < length ps"
  shows "\<exists>t rest. feeds (peer_want i) (peer_arrive host em i) (garbled n ps) s (Inr t) rest \<and>
     errored (srv_out t) i \<and> peer_want i t = None"
proof -
  obtain bs where g: "garbled n ps = concat (take n ps) @ bs" "4 \<le> length bs"
      "header_verdict (take 4 bs) = Inl (exn_what InvalidHeaderError)" "list_all framed (take n ps)"
    using garbled_stream [OF assms(2,3)] .
  have "length (srv_pending s) + length (take n ps) * length (peer_ids s) \<le>
      length (srv_pending s) + length ps * length (peer_ids s)" by simp
  then have "peer_awaiting host em i (length (take n ps)) s"
    using assms(1) unfolding peer_awaiting_def peer_ready_def by (meson le_less_trans)
  moreover have "list_all (\<lambda>_. True) (take n ps)" by (simp add: list_all_iff)
  ultimately obtain t where t: "peer_refused i (take 4 bs) t (peer_arrive host em i (take 4 bs) t)"
      "\<And>u. peer_arrive host em i (take 4 bs) t = Inr u \<Longrightarrow> peer_want i u = None \<Longrightarrow>
         feeds (peer_want i) (peer_arrive host em i) (garbled n ps) s (Inr u) (drop 4 bs)"
    using peer_reader.refused_after_packets [OF _ g(4) _ g(2,3)] unfolding g(1) by blast
  from t(1) g(3) obtain u where "peer_arrive host em i (take 4 bs) t = Inr u" "errored (srv_out u) i" "peer_want i u = None"
    by (auto simp: peer_refused_def)
  with t(2) show ?thesis by blast
qed

lemma client_reads_garbled:
  assumes "cm_awaiting 0 m" and "list_all framed ps" and "list_all (\<lambda>p. 4 < length p) ps" and "Suc n < length ps"
  shows "\<exists>m' rest. feeds cm_want (cm_arrive host em ts) (garbled n ps) m (Inr m') rest \<and> cm_state m' = StateWaiting \<and>
     cm_signals m' = cm_signals m @ concat (map packet_signals (take n ps)) @
       [disconnected_rprt STCHR_SOCKET_CLOSED (exn_what InvalidHeaderError)]"
proof -
  obtain bs where g: "garbled n ps = concat (take n ps) @ bs" "4 \<le> length bs"
      "header_verdict (take 4 bs) = Inl (exn_what InvalidHeaderError)" "list_all framed (take n ps)"
    using garbled_stream [OF assms(2,4)] .
  have "cm_awaiting (length (take n ps)) m" using assms(1) awaiting_any by blast
  moreover have "list_all (\<lambda>p. 4 < length p) (take n ps)" using assms(3) by (auto simp: list_all_iff dest: in_set_takeD)
  ultimately obtain t where t: "chain (cm_consumed host em) (take n ps) m t"
      "cm_refused (take 4 bs) t (cm_arrive host em ts (take 4 bs) t)"
      "\<And>u. cm_arrive host em ts (take 4 bs) t = Inr u \<Longrightarrow> cm_want u = None \<Longrightarrow>
         feeds cm_want (cm_arrive host em ts) (garbled n ps) m (Inr u) (drop 4 bs)"
    using client_reader.refused_after_packets [OF _ g(4) _ g(2,3)] unfolding g(1) by blast
  from t(2) g(3) obtain u where u: "cm_arrive host em ts (take 4 bs) t = Inr u" "cm_state u = StateWaiting"
      "cm_want u = None" "cm_signals u = cm_signals t @ [disconnected_rprt STCHR_SOCKET_CLOSED (exn_what InvalidHeaderError)]"
    by (auto simp: cm_refused_def)
  with t(3) cm_chain [OF t(1)] show ?thesis by auto
qed

section \<open>Conversations\<close>

text \<open>
  C30. A conversation needs the writes to come one after the other, and nothing in
  the code sees to that.  When a connected client sends several messages, its
  writes can all succeed and yet put bytes on the wire with which the server
  disconnects it; and when they do arrive, the writes of the server to another
  client can all succeed and yet make that client drop its connection, after any
  number of the messages but the last two.
\<close>

theorem overlapping_writes_disconnect:
  assumes "cm_state a = StateConnected" and "\<forall>msg \<in> set msgs. num_size msg + 4 \<le> 0x8FFF"
    and "peer_awaiting host em i (length msgs) s"
    and "j \<in> set (peer_ids s)" and "sends_to j (srv_pending s) = []"
    and "cm_awaiting 0 b" and "Suc n < length msgs"
  shows "\<exists>a' packets.
     process_events host_a ts (map EvtSendMsg msgs) a = Inr a' \<and>
     cm_pending a' = cm_pending a @ map OpWrite packets \<and>
     (\<exists>bs t rest. on_wire packets bs \<and>
        feeds (peer_want i) (peer_arrive host em i) bs s (Inr t) rest \<and> errored (srv_out t) i) \<and>
     (\<exists>bs t. on_wire packets bs \<and>
        feeds (peer_want i) (peer_arrive host em i) bs s (Inr t) [] \<and>
        (\<exists>bs' b' rest. on_wire (sends_to j (srv_pending t)) bs' \<and>
           feeds cm_want (cm_arrive host_b em ts) bs' b (Inr b') rest \<and> cm_state b' = StateWaiting \<and>
           cm_signals b' = cm_signals b @ map RcvMessage (take n msgs) @
             [disconnected_rprt STCHR_SOCKET_CLOSED (exn_what InvalidHeaderError)]))"
proof -
  define packets where "packets = map (segm_wire num_wire) msgs"
  have "\<forall>msg \<in> set msgs. num_size msg + 4 \<le> vector_max_size"
    using assms(2) by (auto simp: vector_max_size_def)
  from messages_are_written [OF assms(1) this, of host_a ts, folded packets_def] obtain a' where
      a': "process_events host_a ts (map EvtSendMsg msgs) a = Inr a'"
        "cm_pending a' = cm_pending a @ map OpWrite packets" by blast
  have packets: "list_all framed packets" "list_all (\<lambda>p. 4 < length p) packets"
    using assms(2) message_packet by (auto simp: list_all_iff packets_def)
  have n: "Suc n < length packets" using assms(7) by (simp add: packets_def)
  have i: "peer_awaiting host em i (length packets) s" using assms(3) by (simp add: packets_def)
  from stream_is_relayed [OF i packets(1)] assms(4,5) obtain t where
      t: "feeds (peer_want i) (peer_arrive host em i) (concat packets) s (Inr t) []"
        "sends_to j (srv_pending t) = packets"
    by auto
  have "concat (map packet_signals (take n packets)) = map RcvMessage (take n msgs)"
    unfolding packets_def take_map by (rule message_signals)
  with client_reads_garbled [OF assms(6) packets n, of host_b em ts] t(2) on_wire_garbled [OF n]
  have "\<exists>bs' b' rest. on_wire (sends_to j (srv_pending t)) bs' \<and>
      feeds cm_want (cm_arrive host_b em ts) bs' b (Inr b') rest \<and> cm_state b' = StateWaiting \<and>
      cm_signals b' = cm_signals b @ map RcvMessage (take n msgs) @
        [disconnected_rprt STCHR_SOCKET_CLOSED (exn_what InvalidHeaderError)]"
    by metis
  with a' t(1) on_wire_in_turn [of packets] server_reads_garbled [OF i packets(1) n] on_wire_garbled [OF n]
  show ?thesis by blast
qed

lemma overlapping_writes_disconnect_witness:
  "\<exists>a' packets bs t rest.
     process_events BigEndian ThreadStarted (map EvtSendMsg [demo_message, demo_message])
       (demo_machine StateConnected []) = Inr a' \<and>
     cm_pending a' = map OpWrite packets \<and> on_wire packets bs \<and>
     feeds (peer_want 1) (peer_arrive LittleEndian demo_log 1) bs demo_two (Inr t) rest \<and> errored (srv_out t) 1"
proof -
  have "peer_awaiting LittleEndian demo_log 1 (length [demo_message, demo_message]) demo_two"
      "2 \<in> set (peer_ids demo_two)" "sends_to 2 (srv_pending demo_two) = []"
    using demo_reachable(2)
    by (simp_all add: peer_awaiting_def peer_ready_def demo_two_def peer_ids_def map_keys_def)
  moreover have "cm_awaiting 0 (demo_machine StateConnected [OpReadHeader])" by (simp add: cm_awaiting_def)
  moreover have "\<forall>msg \<in> set [demo_message, demo_message]. num_size msg + 4 \<le> 0x8FFF"
    using demo_message_size by simp
  ultimately obtain a' packets bs t rest where
      "process_events BigEndian ThreadStarted (map EvtSendMsg [demo_message, demo_message])
         (demo_machine StateConnected []) = Inr a'"
      "cm_pending a' = cm_pending (demo_machine StateConnected []) @ map OpWrite packets" "on_wire packets bs"
      "feeds (peer_want 1) (peer_arrive LittleEndian demo_log 1) bs demo_two (Inr t) rest" "errored (srv_out t) 1"
    using overlapping_writes_disconnect [of "demo_machine StateConnected []" "[demo_message, demo_message]"
        LittleEndian demo_log 1 demo_two 2 "demo_machine StateConnected [OpReadHeader]" 0
        BigEndian ThreadStarted BigEndian]
    by (simp del: process_events.simps) blast
  then show ?thesis by (intro exI conjI) simp_all
qed

end
