(* ===== verification/Gui.thy ===== *)
theory Gui
  imports ClientProps
begin

text \<open>
  \<open>src/client-wx/gui.hpp\<close> and \<open>gui.cpp\<close>: the commands and reports of the main
  window.  wxWidgets is not part of the repository: a \<open>wxString\<close> is a list of
  characters, its conversions \<open>ToUTF8\<close> and \<open>FromUTF8\<close> and the narrowing of wide
  characters are parameters, and what a method does to the window and to the
  client node is the list of its actions in order.
\<close>

section \<open>Actions\<close>

datatype gui_action =
    GuiClose
  | GuiClearInput
  | GuiPrint string
  | GuiDisconnect
  | GuiConnectTo server_location
  | GuiSend "byte list"

text \<open>A sequence of bytes as a C string: what comes before the first zero.\<close>

definition c_str :: "byte list \<Rightarrow> byte list" where
  "c_str bs = takeWhile (\<lambda>b. b \<noteq> 0) bs"

definition bytes_of_string :: "string \<Rightarrow> byte list" where
  "bytes_of_string s = map (\<lambda>c. word_of_nat (of_char c)) s"

definition latin_text :: "byte list \<Rightarrow> string" where
  "latin_text bs = map (\<lambda>b. char_of (unat b)) bs"

lemma latin_text_bytes: "latin_text (bytes_of_string s) = s"
proof -
  have "unat (word_of_nat (of_char c) :: byte) = of_char c" for c
    using nat_of_char_less_256 [of c] by (simp add: unat_of_nat take_bit_nat_eq_self)
  then show ?thesis by (simp add: latin_text_def bytes_of_string_def map_idI)
qed

definition wxString2str :: "(string \<Rightarrow> byte list) \<Rightarrow> string \<Rightarrow> byte list" where
  "wxString2str to_utf8 wxstr = c_str (to_utf8 wxstr)"

definition str2wxString :: "(byte list \<Rightarrow> string) \<Rightarrow> byte list \<Rightarrow> string" where
  "str2wxString from_utf8 str = from_utf8 (c_str str)"

section \<open>Commands\<close>

definition isCommand :: "string \<Rightarrow> bool" where
  "isCommand str \<longleftrightarrow> length str \<noteq> 0 \<and> str ! 0 = CHR ''/''"

definition whitespace :: string where
  "whitespace = [CHR '' '', CHR 0x09, CHR 0x0D, CHR 0x0A]"

definition invalid_command :: "gui_action list" where
  "invalid_command = [GuiPrint ''*  Invalid command syntax!'']"

definition parseCommand ::
  "(string \<Rightarrow> string \<Rightarrow> string list) \<Rightarrow> (string \<Rightarrow> string) \<Rightarrow> string \<Rightarrow> gui_action list" where
  "parseCommand tokenize narrow str =
     (case tokenize whitespace str of
        [] \<Rightarrow> invalid_command
      | cmd # rest \<Rightarrow>
          if cmd = ''/exit'' then [GuiClose]
          else if cmd = ''/disconnect'' then [GuiDisconnect]
          else if cmd = ''/print'' then
            (case rest of [] \<Rightarrow> invalid_command | arg # _ \<Rightarrow> [GuiPrint (''*  '' @ arg)])
          else if cmd = ''/connect'' then
            (case rest of
               [] \<Rightarrow> invalid_command
             | host_name # rest2 \<Rightarrow>
                 (case rest2 of
                    [] \<Rightarrow> invalid_command
                  | service # _ \<Rightarrow>
                      [GuiConnectTo \<lparr>where_string = narrow host_name @ '' '' @ narrow service\<rparr>]))
          else invalid_command)"

definition OnEnter ::
  "(string \<Rightarrow> string \<Rightarrow> string list) \<Rightarrow> (string \<Rightarrow> string) \<Rightarrow> (string \<Rightarrow> byte list) \<Rightarrow> string
     \<Rightarrow> gui_action list" where
  "OnEnter tokenize narrow to_utf8 input_string =
     GuiClearInput #
     (if input_string = [] then []
      else GuiPrint (''<< '' @ input_string) #
        (if isCommand input_string then parseCommand tokenize narrow input_string
         else [GuiSend (wxString2str to_utf8 input_string)]))"

section \<open>Slots\<close>

definition slotReceiveMessage :: "(byte list \<Rightarrow> string) \<Rightarrow> near_user_message \<Rightarrow> gui_action list" where
  "slotReceiveMessage from_utf8 msg =
     [GuiPrint (''>> '' @ from_utf8 (c_str (sw_message_string (num_stringwrap msg))))]"

definition slotConnectionStatusReport ::
  "(byte list \<Rightarrow> string) \<Rightarrow> connection_status_report \<Rightarrow> gui_action list" where
  "slotConnectionStatusReport from_utf8 rprt =
     (case newstate rprt of
        CNST_DISCONNECTED \<Rightarrow>
          if statechange_reason rprt = STCHR_NO_REASON \<or> statechange_reason rprt = STCHR_USER_REQUESTED
          then [GuiPrint ''*  Connection state: disconnected.'']
          else [GuiPrint (''*  New connection state: disconnected; '' @
                  str2wxString from_utf8 (bytes_of_string (csr_msg rprt)))]
      | CNST_CONNECTING \<Rightarrow>
          if stchr_value (statechange_reason rprt) = 0
          then [GuiPrint ''*  Connection state: Connecting.''] else []
      | CNST_CONNECTED \<Rightarrow>
          if stchr_value (statechange_reason rprt) = 0
          then [GuiPrint ''*  Connection state: connected.'']
          else [GuiPrint ''*  New connection state: connected.''])"

definition slotSendReport :: "(byte list \<Rightarrow> string) \<Rightarrow> send_report \<Rightarrow> gui_action list" where
  "slotSendReport from_utf8 rprt =
     (if \<not> send_state rprt
      then [GuiPrint (''*  Failed to send message: '' @
              str2wxString from_utf8 (bytes_of_string (reason_str rprt)))]
      else [])"

text \<open>The window is connected to the three signals of its client node.\<close>

fun gui_slot :: "(byte list \<Rightarrow> string) \<Rightarrow> cn_signal \<Rightarrow> gui_action list" where
  "gui_slot from_utf8 (RcvMessage msg) = slotReceiveMessage from_utf8 msg"
| "gui_slot from_utf8 (ConnectStatReport rprt) = slotConnectionStatusReport from_utf8 rprt"
| "gui_slot from_utf8 (SendReport rprt) = slotSendReport from_utf8 rprt"

text \<open>The calls of the client node among the actions.\<close>

fun gui_perform ::
  "(string \<Rightarrow> string \<Rightarrow> string list) \<Rightarrow> endianness \<Rightarrow> thread_start \<Rightarrow> gui_action \<Rightarrow> client_node
     \<Rightarrow> client_node result" where
  "gui_perform tokenize host ts (GuiConnectTo loc) cn = connectTo tokenize host ts loc cn"
| "gui_perform tokenize host ts GuiDisconnect cn = disconnect host ts cn"
| "gui_perform tokenize host ts (GuiSend msg) cn =
     rbind (sendUserMessage_copy host ts msg (uuid_ctor 0) cn) (\<lambda>(cn, _). Inr cn)"
| "gui_perform tokenize host ts _ cn = Inr cn"

section \<open>Properties\<close>

lemma parseCommand_connect:
  assumes "GuiConnectTo loc \<in> set (parseCommand tokenize narrow str)"
  shows "\<exists>h s. h \<in> set (tokenize whitespace str) \<and> s \<in> set (tokenize whitespace str) \<and>
     loc = \<lparr>where_string = narrow h @ '' '' @ narrow s\<rparr>"
proof -
  from assms obtain cmd h s rest where tokens: "tokenize whitespace str = cmd # h # s # rest"
      and loc: "loc = \<lparr>where_string = narrow h @ '' '' @ narrow s\<rparr>"
    by (simp add: parseCommand_def invalid_command_def split: list.splits if_splits)
  then show ?thesis by (intro exI [of _ h] exI [of _ s]) simp
qed

text \<open>
  A connect command of the window always gives the client node a
  destination it can parse: the two words of the command come back as host and
  service, so the connect request is never refused as invalid.  The tokenizer
  is any that behaves as \<open>boost::char_separator\<close> documents, and narrowing a
  word keeps it a word.
\<close>

lemma connect_command_parses:
  assumes "separator_tokenizer tokenize"
    and "\<And>w. w \<noteq> [] \<Longrightarrow> CHR '' '' \<notin> set w \<Longrightarrow> narrow w \<noteq> [] \<and> CHR '' '' \<notin> set (narrow w)"
    and "GuiConnectTo loc \<in> set (OnEnter tokenize narrow to_utf8 str)"
  shows "\<exists>h s. h \<in> set (tokenize whitespace str) \<and> s \<in> set (tokenize whitespace str) \<and>
     parseDestinationString tokenize h0 s0 (where_string loc) = (True, narrow h, narrow s)"
proof -
  from assms(3) have "GuiConnectTo loc \<in> set (parseCommand tokenize narrow str)"
    by (auto simp: OnEnter_def split: if_splits)
  then obtain h s where hs: "h \<in> set (tokenize whitespace str)" "s \<in> set (tokenize whitespace str)"
      and loc: "loc = \<lparr>where_string = narrow h @ '' '' @ narrow s\<rparr>"
    using parseCommand_connect by blast
  have word: "narrow w \<noteq> [] \<and> CHR '' '' \<notin> set (narrow w)" if "w \<in> set (tokenize whitespace str)" for w
    using assms(2) [of w] separator_tokenizer.tok_chars [OF assms(1) that] by (auto simp: whitespace_def)
  have "parseDestinationString tokenize h0 s0 (narrow h @ '' '' @ narrow s) = (True, narrow h, narrow s)"
    using word [OF hs(1)] word [OF hs(2)]
    by (intro separator_tokenizer.parse_two_words [OF assms(1)]) simp_all
  with hs loc show ?thesis by auto
qed

text \<open>
  What the user types is either a command, and nothing of it is sent, or a
  message, and then exactly one message is sent, holding the text up to its
  first zero byte; either way it is echoed first.
\<close>

lemma commands_are_not_sent:
  assumes "str \<noteq> []"
  shows "OnEnter tokenize narrow to_utf8 str ! 1 = GuiPrint (''<< '' @ str) \<and>
     filter (\<lambda>a. case a of GuiSend _ \<Rightarrow> True | _ \<Rightarrow> False) (OnEnter tokenize narrow to_utf8 str) =
       (if hd str = CHR ''/'' then [] else [GuiSend (c_str (to_utf8 str))])"
proof -
  have "filter (\<lambda>a. case a of GuiSend _ \<Rightarrow> True | _ \<Rightarrow> False) (parseCommand tokenize narrow str) = []"
    by (simp add: parseCommand_def invalid_command_def split: list.split)
  with assms show ?thesis
    by (simp add: OnEnter_def isCommand_def wxString2str_def hd_conv_nth)
qed

text \<open>
  The user never hears of a connection being set up: every report that
  says \<open>CNST_CONNECTING\<close>, in any run of the client, prints nothing.
\<close>

lemma connecting_is_silent:
  assumes "cm_reachable host em m" and "ConnectStatReport r \<in> set (cm_signals m)"
    and "newstate r = CNST_CONNECTING"
  shows "gui_slot from_utf8 (ConnectStatReport r) = []"
proof -
  have "signals_all (\<lambda>s. case s of ConnectStatReport r \<Rightarrow>
      newstate r = CNST_CONNECTING \<longrightarrow> statechange_reason r = STCHR_BUSY | _ \<Rightarrow> True) m"
  proof (rule cm_reachable_signals [OF assms(1)])
    show "list_all (\<lambda>s. case s of ConnectStatReport r \<Rightarrow>
        newstate r = CNST_CONNECTING \<longrightarrow> statechange_reason r = STCHR_BUSY | _ \<Rightarrow> True)
        (snd (cn_spec ts st e))" for ts st e
      by (cases "(ts, st, e)" rule: cn_spec.cases)
        (auto simp: disconnected_rprt_def not_sent_rprt_def delivered_def split: option.split)
  qed simp
  with assms(2,3) have "statechange_reason r = STCHR_BUSY"
    by (auto simp: signals_all_def list_all_iff)
  with assms(3) show ?thesis by (simp add: slotConnectionStatusReport_def)
qed

end
