(* ===== verification/GuiApp.thy ===== *)
theory GuiApp
  imports Gui "HOL-Library.Sublist"
begin

text \<open>
  The running application of \<open>client-wx\<close>: the main window with its widgets and its
  client node (\<open>gui.hpp\<close>, \<open>gui.cpp\<close>) and the application object that handles the
  toolkit's events (\<open>main.cpp\<close>).

  Of wxWidgets the model uses what it documents: \<open>AddPendingEvent\<close> appends to the
  queue of a window and the event loop handles the queued events in order; an
  event the windows do not handle reaches \<open>ProcessEvent\<close> of the application
  object; \<open>Close\<close> asks the window to close.  Of Boost.Signals2: a signal calls its
  slots in the order of their connection.  Of Boost.Statechart: a machine whose
  reaction throws is terminated, and a terminated machine ignores events.
\<close>

section \<open>The window\<close>

datatype wx_id = ID_EXIT | ID_ANY | ID_INPUT_BOX
datatype text_style = TE_READONLY | TE_MULTILINE | TE_PROCESS_ENTER
datatype box_name = DisplayBox | InputBox

record window_scales =
  border_width :: nat
  displaybox_size :: "nat \<times> nat"
  inputbox_size :: "nat \<times> nat"
  displaybox_proportion :: nat
  inputbox_proportion :: nat

record menu_item =
  mi_id :: wx_id
  mi_label :: string
  mi_help :: string

record text_ctrl =
  tc_id :: wx_id
  tc_value :: string
  tc_size :: "nat \<times> nat"
  tc_style :: "text_style list"

record sizer_item =
  si_box :: box_name
  si_proportion :: nat
  si_border :: nat

datatype slot_method = SlotReceiveMessage | SlotConnectionStatusReport | SlotSendReport

text \<open>
  \<open>mf_pending\<close> is the queue of events of the type \<open>nuke_msEVT_PRINT_MESSAGE\<close>, with
  their strings; \<open>mf_bound\<close> says which method is bound to which connection;
  \<open>mf_terminated\<close>, whether an exception has terminated the machine of the node.
\<close>

record main_frame =
  mf_title :: string
  mf_size :: "nat \<times> nat"
  scales :: window_scales
  menu_file :: "menu_item list"
  menu_bar :: "(menu_item list \<times> string) list"
  mf_menu_bar_set :: bool
  text_display_box :: text_ctrl
  text_input_box :: text_ctrl
  mf_sizer :: "sizer_item list"
  mf_focus :: "box_name option"
  mf_shown :: bool
  mf_node :: client_node
  mf_terminated :: bool
  mf_bound :: "(nat \<times> slot_method) list"
  mf_pending :: "string list"
  mf_closing :: bool

section \<open>The constructor\<close>

definition createMenuBar :: "main_frame \<Rightarrow> main_frame" where
  "createMenuBar f =
     (let f = f\<lparr>menu_bar := []\<rparr>;
          f = f\<lparr>menu_file := []\<rparr>;
          f = f\<lparr>menu_file := menu_file f @
                [\<lparr>mi_id = ID_EXIT, mi_label = ''&Quit'', mi_help = ''Exit Application''\<rparr>]\<rparr>;
          f = f\<lparr>menu_bar := menu_bar f @ [(menu_file f, ''File'')]\<rparr>
      in f\<lparr>mf_menu_bar_set := True\<rparr>)"

definition createTextBoxes :: "main_frame \<Rightarrow> main_frame" where
  "createTextBoxes f =
     (let vertsizer = [];
          f = f\<lparr>text_display_box := \<lparr>tc_id = ID_ANY, tc_value = '''', tc_size = displaybox_size (scales f),
                tc_style = [TE_READONLY, TE_MULTILINE]\<rparr>\<rparr>;
          f = f\<lparr>text_input_box := \<lparr>tc_id = ID_INPUT_BOX, tc_value = '''', tc_size = inputbox_size (scales f),
                tc_style = [TE_PROCESS_ENTER, TE_MULTILINE]\<rparr>\<rparr>;
          vertsizer = vertsizer @ [\<lparr>si_box = DisplayBox, si_proportion = displaybox_proportion (scales f),
                si_border = border_width (scales f)\<rparr>];
          vertsizer = vertsizer @ [\<lparr>si_box = InputBox, si_proportion = inputbox_proportion (scales f),
                si_border = border_width (scales f)\<rparr>];
          f = f\<lparr>mf_sizer := vertsizer\<rparr>
      in f\<lparr>mf_focus := Some InputBox\<rparr>)"

text \<open>The window before the body of its constructor runs.\<close>

definition frame_base :: main_frame where
  "frame_base = \<lparr>mf_title = ''nuke-ms'', mf_size = (600, 500),
     scales = \<lparr>border_width = 0, displaybox_size = (0, 0), inputbox_size = (0, 0),
       displaybox_proportion = 0, inputbox_proportion = 0\<rparr>,
     menu_file = [], menu_bar = [], mf_menu_bar_set = False,
     text_display_box = \<lparr>tc_id = ID_ANY, tc_value = '''', tc_size = (0, 0), tc_style = []\<rparr>,
     text_input_box = \<lparr>tc_id = ID_ANY, tc_value = '''', tc_size = (0, 0), tc_style = []\<rparr>,
     mf_sizer = [], mf_focus = None, mf_shown = False,
     mf_node = client_node_ctor, mf_terminated = False, mf_bound = [], mf_pending = [], mf_closing = False\<rparr>"

definition bind_slot :: "(client_node \<Rightarrow> client_node \<times> nat) \<Rightarrow> slot_method \<Rightarrow> main_frame \<Rightarrow> main_frame" where
  "bind_slot connect slot f =
     (let (cn, conn) = connect (mf_node f) in f\<lparr>mf_node := cn, mf_bound := mf_bound f @ [(conn, slot)]\<rparr>)"

definition main_frame_ctor :: main_frame where
  "main_frame_ctor =
     (let f = frame_base;
          f = bind_slot connectRcvMessage SlotReceiveMessage f;
          f = bind_slot connectConnectionStatusReport SlotConnectionStatusReport f;
          f = bind_slot connectSendReport SlotSendReport f;
          f = f\<lparr>scales := \<lparr>border_width = 10, displaybox_size = (300, 50), inputbox_size = (300, 50),
                displaybox_proportion = 3, inputbox_proportion = 1\<rparr>\<rparr>;
          f = createMenuBar f;
          f = createTextBoxes f
      in f\<lparr>mf_shown := True\<rparr>)"

section \<open>Printing and the slots\<close>

definition printMessage :: "string \<Rightarrow> main_frame \<Rightarrow> main_frame" where
  "printMessage str f = f\<lparr>mf_pending := mf_pending f @ [str]\<rparr>"

definition OnPrintMessage :: "string \<Rightarrow> main_frame \<Rightarrow> main_frame" where
  "OnPrintMessage str f =
     f\<lparr>text_display_box := (text_display_box f)\<lparr>tc_value := tc_value (text_display_box f) @ str @ [CHR 0x0A]\<rparr>\<rparr>"

definition OnQuit :: "main_frame \<Rightarrow> main_frame" where
  "OnQuit f = f\<lparr>mf_closing := True\<rparr>"

text \<open>What the window is given from outside: the tokenizer, the conversions, the host.\<close>

record gui_env =
  ge_tokenize :: "string \<Rightarrow> string \<Rightarrow> string list"
  ge_narrow :: "string \<Rightarrow> string"
  ge_to_utf8 :: "string \<Rightarrow> byte list"
  ge_from_utf8 :: "byte list \<Rightarrow> string"
  ge_host :: endianness
  ge_ts :: thread_start

text \<open>A slot only prints.\<close>

definition perform_prints :: "gui_action list \<Rightarrow> main_frame \<Rightarrow> main_frame" where
  "perform_prints = fold (\<lambda>a f. case a of GuiPrint str \<Rightarrow> printMessage str f | _ \<Rightarrow> f)"

fun call_slot :: "gui_env \<Rightarrow> slot_method option \<Rightarrow> cn_signal \<Rightarrow> gui_action list" where
  "call_slot env (Some SlotReceiveMessage) (RcvMessage msg) = slotReceiveMessage (ge_from_utf8 env) msg"
| "call_slot env (Some SlotConnectionStatusReport) (ConnectStatReport rprt) =
     slotConnectionStatusReport (ge_from_utf8 env) rprt"
| "call_slot env (Some SlotSendReport) (SendReport rprt) = slotSendReport (ge_from_utf8 env) rprt"
| "call_slot env _ _ = []"

definition signal_slots :: "gui_env \<Rightarrow> cn_signal \<Rightarrow> main_frame \<Rightarrow> main_frame" where
  "signal_slots env sig f =
     fold (\<lambda>conn f. perform_prints (call_slot env (map_of (mf_bound f) conn) sig) f)
       (slots_of (mf_node f) sig) f"

text \<open>The node has become \<open>cn\<close>; the signals it emitted on the way have called the slots.\<close>

definition node_becomes :: "gui_env \<Rightarrow> client_node \<Rightarrow> main_frame \<Rightarrow> main_frame" where
  "node_becomes env cn f =
     fold (signal_slots env)
       (drop (length (cm_signals (cn_machine (mf_node f)))) (cm_signals (cn_machine cn)))
       (f\<lparr>mf_node := cn\<rparr>)"

section \<open>Input\<close>

text \<open>A call of the node, also of one whose machine has been terminated.\<close>

definition call_node :: "gui_env \<Rightarrow> gui_action \<Rightarrow> main_frame \<Rightarrow> client_node result" where
  "call_node env a f =
     (let cn = mf_node f in
      if \<not> mf_terminated f then gui_perform (ge_tokenize env) (ge_host env) (ge_ts env) a cn
      else case a of
          GuiConnectTo loc \<Rightarrow>
            if fst (parseDestinationString (ge_tokenize env) '''' '''' (where_string loc)) then Inr cn
            else connectTo (ge_tokenize env) (ge_host env) (ge_ts env) loc cn
        | GuiSend msg \<Rightarrow> Inr (fst (getNextMessageId cn))
        | _ \<Rightarrow> Inr cn)"

text \<open>The second component is what leaves the method, if something does.\<close>

definition node_action :: "gui_env \<Rightarrow> gui_action \<Rightarrow> main_frame \<Rightarrow> main_frame \<times> failure option" where
  "node_action env a f =
     (case call_node env a f of
        Inr cn \<Rightarrow> (node_becomes env cn f, None)
      | Inl failed \<Rightarrow>
          (f\<lparr>mf_node := (case a of GuiSend msg \<Rightarrow> fst (getNextMessageId (mf_node f)) | _ \<Rightarrow> mf_node f),
             mf_terminated := True\<rparr>, Some failed))"

fun perform_action :: "gui_env \<Rightarrow> gui_action \<Rightarrow> main_frame \<Rightarrow> main_frame \<times> failure option" where
  "perform_action env GuiClose f = (f\<lparr>mf_closing := True\<rparr>, None)"
| "perform_action env GuiClearInput f = (f\<lparr>text_input_box := (text_input_box f)\<lparr>tc_value := ''''\<rparr>\<rparr>, None)"
| "perform_action env (GuiPrint str) f = (printMessage str f, None)"
| "perform_action env a f = node_action env a f"

fun perform_actions :: "gui_env \<Rightarrow> gui_action list \<Rightarrow> main_frame \<Rightarrow> main_frame \<times> failure option" where
  "perform_actions env [] f = (f, None)"
| "perform_actions env (a # as) f =
     (case perform_action env a f of
        (f', None) \<Rightarrow> perform_actions env as f'
      | (f', Some failed) \<Rightarrow> (f', Some failed))"

definition frame_OnEnter :: "gui_env \<Rightarrow> main_frame \<Rightarrow> main_frame \<times> failure option" where
  "frame_OnEnter env f =
     perform_actions env
       (OnEnter (ge_tokenize env) (ge_narrow env) (ge_to_utf8 env) (tc_value (text_input_box f))) f"

section \<open>The application object\<close>

definition WXK_RETURN :: nat where "WXK_RETURN = 13"

datatype wx_event = CharEvent nat bool bool | OtherEvent

datatype thrown = StdException string | UnknownException

record main_app =
  ma_frame :: main_frame
  ma_cerr :: "string list"

definition terminating :: "thrown \<Rightarrow> string" where
  "terminating e =
     (case e of
        StdException what \<Rightarrow> ''ERROR: An exception occured: '' @ what @ ''. Terminating''
      | UnknownException \<Rightarrow> ''ERROR: An unknown exception occured. Terminating'')"

text \<open>The handlers of \<open>ProcessEvent\<close>: a line on the error stream, and the window is closed.\<close>

definition handle_exception :: "thrown \<Rightarrow> main_app \<Rightarrow> main_app" where
  "handle_exception e a =
     a\<lparr>ma_cerr := ma_cerr a @ [terminating e], ma_frame := (ma_frame a)\<lparr>mf_closing := True\<rparr>\<rparr>"

text \<open>
  \<open>base\<close> is the base class version of the function.  The result is the value
  returned; \<open>None\<close> stands for the value of the uninitialised \<open>baseclass_result\<close>.
\<close>

definition ProcessEvent ::
  "gui_env \<Rightarrow> (wx_event \<Rightarrow> thrown + bool) \<Rightarrow> wx_event \<Rightarrow> main_app \<Rightarrow> (main_app \<times> bool option) result" where
  "ProcessEvent env base event a =
     (if (case event of
            CharEvent key control shift \<Rightarrow> key = WXK_RETURN \<and> \<not> control \<and> \<not> shift
          | OtherEvent \<Rightarrow> False)
      then (case frame_OnEnter env (ma_frame a) of
              (f, None) \<Rightarrow> Inr (a\<lparr>ma_frame := f\<rparr>, Some True)
            | (f, Some (Throw e)) \<Rightarrow> Inr (handle_exception (StdException (exn_what e)) (a\<lparr>ma_frame := f\<rparr>), None)
            | (f, Some (Undefined u)) \<Rightarrow> Inl (Undefined u))
      else (case base event of
              Inr baseclass_result \<Rightarrow> Inr (a, Some baseclass_result)
            | Inl e \<Rightarrow> Inr (handle_exception e a, None)))"

text \<open>The window may throw while it is constructed.\<close>

definition OnInit :: "thrown option \<Rightarrow> main_frame option \<times> string list \<times> bool" where
  "OnInit ctor_throws =
     (case ctor_throws of
        None \<Rightarrow> (Some main_frame_ctor, [], True)
      | Some e \<Rightarrow> (None, [terminating e], False))"

text \<open>Only the base class version runs; it gives the exit code.\<close>

definition OnExit :: "int \<Rightarrow> int" where
  "OnExit base_result = base_result"

section \<open>The event loop\<close>

text \<open>
  The steps of the program while its window exists: the user changes the text of
  the input box or presses a key, the toolkit handles the next print event
  (by the event table of the window) or the menu entry, or an operation of the
  client completes on the thread of the network, whose slots run there.
\<close>

inductive app_step ::
  "gui_env \<Rightarrow> (wx_event \<Rightarrow> thrown + bool) \<Rightarrow> (error_code \<Rightarrow> string) \<Rightarrow> main_app \<Rightarrow> main_app \<Rightarrow> bool"
  for env base em where
  typing: "app_step env base em a
     (a\<lparr>ma_frame := (ma_frame a)\<lparr>text_input_box := (text_input_box (ma_frame a))\<lparr>tc_value := str\<rparr>\<rparr>\<rparr>)"
| event: "ProcessEvent env base evt a = Inr (a', r) \<Longrightarrow> app_step env base em a a'"
| paint: "mf_pending (ma_frame a) = str # rest \<Longrightarrow>
     app_step env base em a (a\<lparr>ma_frame := OnPrintMessage str ((ma_frame a)\<lparr>mf_pending := rest\<rparr>)\<rparr>)"
| quit: "app_step env base em a (a\<lparr>ma_frame := OnQuit (ma_frame a)\<rparr>)"
| network: "\<not> mf_terminated (ma_frame a) \<Longrightarrow>
     i < length (cm_pending (cn_machine (mf_node (ma_frame a)))) \<Longrightarrow>
     completes (cm_pending (cn_machine (mf_node (ma_frame a))) ! i) c \<Longrightarrow>
     complete_op (ge_host env) em ts i c (cn_machine (mf_node (ma_frame a))) = Inr m \<Longrightarrow>
     app_step env base em a (a\<lparr>ma_frame :=
       node_becomes env ((mf_node (ma_frame a))\<lparr>cn_machine := m\<rparr>) (ma_frame a)\<rparr>)"

section \<open>Every report is shown\<close>

definition wired :: "main_frame \<Rightarrow> bool" where
  "wired f \<longleftrightarrow> cn_slots (mf_node f) = [0] \<and> cn_status_slots (mf_node f) = [1] \<and> cn_send_slots (mf_node f) = [2] \<and>
     mf_bound f = [(0, SlotReceiveMessage), (1, SlotConnectionStatusReport), (2, SlotSendReport)]"

definition report_lines :: "(byte list \<Rightarrow> string) \<Rightarrow> cn_signal \<Rightarrow> string list" where
  "report_lines from_utf8 sig =
     concat (map (\<lambda>a. case a of GuiPrint str \<Rightarrow> [str] | _ \<Rightarrow> []) (gui_slot from_utf8 sig))"

definition text_line :: "string \<Rightarrow> string" where
  "text_line str = str @ [CHR 0x0A]"

text \<open>The display when all print events that are queued have been handled.\<close>

definition shown_text :: "main_frame \<Rightarrow> string" where
  "shown_text f = tc_value (text_display_box f) @ concat (map text_line (mf_pending f))"

lemma wired_ctor: "wired main_frame_ctor"
  by (simp add: wired_def main_frame_ctor_def bind_slot_def frame_base_def createMenuBar_def createTextBoxes_def
      client_node_ctor_def connectRcvMessage_def connectConnectionStatusReport_def connectSendReport_def Let_def)

lemma perform_prints_lines:
  "perform_prints as f =
     f\<lparr>mf_pending := mf_pending f @ concat (map (\<lambda>a. case a of GuiPrint str \<Rightarrow> [str] | _ \<Rightarrow> []) as)\<rparr>"
  by (induction as arbitrary: f) (auto simp: perform_prints_def printMessage_def split: gui_action.split)

lemma signal_slots_wired:
  "wired f \<Longrightarrow> signal_slots env sig f = f\<lparr>mf_pending := mf_pending f @ report_lines (ge_from_utf8 env) sig\<rparr>"
  by (cases sig) (simp_all add: signal_slots_def wired_def perform_prints_lines report_lines_def)

lemma wired_pending [simp]: "wired (f\<lparr>mf_pending := ps\<rparr>) = wired f"
  by (simp add: wired_def)

lemma signals_shown:
  "wired f \<Longrightarrow> fold (signal_slots env) sigs f =
     f\<lparr>mf_pending := mf_pending f @ concat (map (report_lines (ge_from_utf8 env)) sigs)\<rparr>"
  by (induction sigs arbitrary: f) (simp_all add: signal_slots_wired)

lemma node_becomes_wired:
  assumes "wired f" and "wired (f\<lparr>mf_node := cn\<rparr>)"
    and "cm_signals (cn_machine cn) = cm_signals (cn_machine (mf_node f)) @ sigs"
  shows "node_becomes env cn f = f\<lparr>mf_node := cn,
     mf_pending := mf_pending f @ concat (map (report_lines (ge_from_utf8 env)) sigs)\<rparr>"
  using signals_shown [OF assms(2), of env sigs] assms(3) by (simp add: node_becomes_def)

text \<open>Signals are only added.\<close>

lemma complete_op_signals:
  assumes "complete_op host em ts i c m = Inr m'"
  shows "\<exists>sigs. cm_signals m' = cm_signals m @ sigs"
proof -
  from assms obtain m1 where run: "run_handler host em ts (cm_pending m ! i) c
        (m\<lparr>cm_pending := remove_nth i (cm_pending m)\<rparr>) = Inr m1" and m': "m' = release_ref m1"
    by (auto simp: complete_op_def rbind_eq_Inr_iff)
  have "\<exists>sigs. cm_signals m1 = cm_signals m @ sigs"
    using run
    by (rule run_handler_keeps [where P = "\<lambda>n. \<exists>sigs. cm_signals n = cm_signals m @ sigs"])
      (auto simp: cm_effect_defs evolves_def dest!: process_event_Inr)
  then show ?thesis by (simp add: m')
qed

text \<open>A call of the node leaves its slots alone and adds signals to its machine.\<close>

definition node_extends :: "client_node \<Rightarrow> client_node \<Rightarrow> bool" where
  "node_extends cn cn' \<longleftrightarrow>
     cn_slots cn' = cn_slots cn \<and> cn_status_slots cn' = cn_status_slots cn \<and> cn_send_slots cn' = cn_send_slots cn \<and>
     (\<exists>sigs. cm_signals (cn_machine cn') = cm_signals (cn_machine cn) @ sigs)"

lemma node_extends_simps [simp]:
  "node_extends cn cn" "node_extends cn (cn\<lparr>cn_last_msg_id := i\<rparr>)"
  "node_extends (cn\<lparr>cn_last_msg_id := i\<rparr>) cn' = node_extends cn cn'"
  by (simp_all add: node_extends_def)

lemma with_machine_event:
  assumes "with_machine cn (process_event host ts e (cn_machine cn)) = Inr cn'" and "user_event e"
  shows "node_extends cn cn'"
proof -
  from assms(1) obtain m where m: "process_event host ts e (cn_machine cn) = Inr m" "cn' = cn\<lparr>cn_machine := m\<rparr>"
    by (auto simp: with_machine_def rbind_eq_Inr_iff)
  from process_event_Inr [OF user_event_wf [OF assms(2)] m(1)] m(2) show ?thesis by (auto simp: evolves_def node_extends_def)
qed

lemma gui_perform_effect:
  assumes "gui_perform tokenize host ts a cn = Inr cn'"
  shows "node_extends cn cn'"
proof (cases a)
  case GuiDisconnect
  with assms have "with_machine cn (process_event host ts EvtDisconnectRequest (cn_machine cn)) = Inr cn'"
    by (simp add: disconnect_def)
  then show ?thesis by (rule with_machine_event) simp
next
  case (GuiConnectTo loc)
  obtain ok h s where p: "parseDestinationString tokenize '''' '''' (where_string loc) = (ok, h, s)"
    by (cases "parseDestinationString tokenize '''' '''' (where_string loc)")
  show ?thesis
  proof (cases ok)
    case True
    with GuiConnectTo assms p have "with_machine cn (process_event host ts (EvtConnectRequest h s) (cn_machine cn)) = Inr cn'"
      by (simp add: connectTo_def)
    then show ?thesis by (rule with_machine_event) simp
  next
    case False
    with GuiConnectTo assms p show ?thesis
      by (auto simp: connectTo_def Let_def emit_def node_extends_def)
  qed
next
  case (GuiSend msg)
  let ?cn = "cn\<lparr>cn_last_msg_id := cn_last_msg_id cn + 1\<rparr>"
  let ?msg = "(num_of_stringwrap \<lparr>sw_message_string = msg\<rparr> user_id_none \<lparr>uuid_id = 0\<rparr> 0)
      \<lparr>num_msg_id := cn_last_msg_id cn + 1\<rparr>"
  from GuiSend assms have "with_machine ?cn (process_event host ts (EvtSendMsg ?msg) (cn_machine ?cn)) = Inr cn'"
    by (auto simp: user_id_none_def sendUserMessage_def getNextMessageId_def Let_def rbind_eq_Inr_iff)
  from with_machine_event [OF this] show ?thesis by simp
qed (use assms in simp_all)

lemma call_node_effect:
  assumes "call_node env a f = Inr cn'"
  shows "node_extends (mf_node f) cn'"
proof (cases "mf_terminated f")
  case False
  with assms show ?thesis
    by (intro gui_perform_effect [of "ge_tokenize env" "ge_host env" "ge_ts env" a]) (simp add: call_node_def)
next
  case True
  have "node_extends (mf_node f) cn'"
    if "connectTo (ge_tokenize env) (ge_host env) (ge_ts env) loc (mf_node f) = Inr cn'" for loc
    by (rule gui_perform_effect [of "ge_tokenize env" "ge_host env" "ge_ts env" "GuiConnectTo loc"]) (simp add: that)
  with True assms show ?thesis
    by (cases a) (auto simp: call_node_def Let_def getNextMessageId_def split: if_splits)
qed

text \<open>
  The invariant of the window: its text, with what is queued, is a list of lines
  that has the lines of all reports of the client in their order.
\<close>

definition shows_reports :: "gui_env \<Rightarrow> main_frame \<Rightarrow> bool" where
  "shows_reports env f \<longleftrightarrow> wired f \<and>
     (\<exists>lines. shown_text f = concat (map text_line lines) \<and>
        subseq (concat (map (report_lines (ge_from_utf8 env)) (cm_signals (cn_machine (mf_node f))))) lines)"

lemma shows_reports_same:
  assumes "shows_reports env f" and "shown_text f' = shown_text f" and "mf_bound f' = mf_bound f"
    and "cn_slots (mf_node f') = cn_slots (mf_node f)" "cn_status_slots (mf_node f') = cn_status_slots (mf_node f)"
    "cn_send_slots (mf_node f') = cn_send_slots (mf_node f)"
    and "cm_signals (cn_machine (mf_node f')) = cm_signals (cn_machine (mf_node f))"
  shows "shows_reports env f'"
  using assms by (simp add: shows_reports_def wired_def)

lemma shows_reports_print: "shows_reports env f \<Longrightarrow> shows_reports env (printMessage str f)"
proof -
  assume "shows_reports env f"
  then obtain lines where l: "wired f" "shown_text f = concat (map text_line lines)"
      "subseq (concat (map (report_lines (ge_from_utf8 env)) (cm_signals (cn_machine (mf_node f))))) lines"
    by (auto simp: shows_reports_def)
  then have "shown_text (printMessage str f) = concat (map text_line (lines @ [str]))"
    by (simp add: shown_text_def printMessage_def)
  moreover have "wired (printMessage str f)" "mf_node (printMessage str f) = mf_node f"
    using l(1) by (simp_all add: printMessage_def)
  ultimately show ?thesis
    using subseq_append_le_same_iff list_emb_append2 [OF l(3)] unfolding shows_reports_def
    by (metis l(3) append_Nil2 list_emb_append_mono list_emb_Nil)
qed

lemma shows_reports_node:
  assumes "shows_reports env f" and "node_extends (mf_node f) cn"
  shows "shows_reports env (node_becomes env cn f)"
proof -
  let ?r = "report_lines (ge_from_utf8 env)"
  from assms(1) obtain lines where l: "wired f" "shown_text f = concat (map text_line lines)"
      "subseq (concat (map ?r (cm_signals (cn_machine (mf_node f))))) lines"
    by (auto simp: shows_reports_def)
  from assms(2) obtain sigs where sigs: "cm_signals (cn_machine cn) = cm_signals (cn_machine (mf_node f)) @ sigs"
    by (auto simp: node_extends_def)
  have w: "wired (f\<lparr>mf_node := cn\<rparr>)" using l(1) assms(2) by (simp add: wired_def node_extends_def)
  have f': "node_becomes env cn f = f\<lparr>mf_node := cn, mf_pending := mf_pending f @ concat (map ?r sigs)\<rparr>"
    by (rule node_becomes_wired [OF l(1) w sigs])
  have "shown_text (node_becomes env cn f) = concat (map text_line (lines @ concat (map ?r sigs)))"
    using l(2) by (simp add: f' shown_text_def)
  moreover have "subseq (concat (map ?r (cm_signals (cn_machine cn)))) (lines @ concat (map ?r sigs))"
    using l(3) by (simp add: sigs list_emb_append_mono)
  moreover have "wired (node_becomes env cn f)" "mf_node (node_becomes env cn f) = cn"
    using w by (simp_all add: f')
  ultimately show ?thesis unfolding shows_reports_def by metis
qed

lemma shows_reports_action:
  assumes "shows_reports env f"
  shows "shows_reports env (fst (perform_action env a f))"
proof (cases "\<exists>str. a = GuiPrint str \<or> a = GuiClose \<or> a = GuiClearInput")
  case True
  moreover have "shows_reports env (f\<lparr>mf_closing := True\<rparr>)"
      "shows_reports env (f\<lparr>text_input_box := (text_input_box f)\<lparr>tc_value := ''''\<rparr>\<rparr>)"
    by (rule shows_reports_same [OF assms]; simp add: shown_text_def)+
  ultimately show ?thesis using shows_reports_print [OF assms] by auto
next
  case False
  then have "perform_action env a f = node_action env a f" by (cases a) auto
  moreover have "shows_reports env (fst (node_action env a f))"
  proof (cases "call_node env a f")
    case (Inr cn)
    from shows_reports_node [OF assms call_node_effect [OF Inr]]
    have "shows_reports env (node_becomes env cn f)" .
    with Inr show ?thesis by (simp add: node_action_def)
  next
    case (Inl failed)
    then show ?thesis
      by (auto simp: node_action_def getNextMessageId_def Let_def shown_text_def
          intro!: shows_reports_same [OF assms] split: gui_action.split)
  qed
  ultimately show ?thesis by simp
qed

lemma shows_reports_actions: "shows_reports env f \<Longrightarrow> shows_reports env (fst (perform_actions env as f))"
proof (induction as arbitrary: f)
  case Nil
  then show ?case by simp
next
  case (Cons a as)
  from shows_reports_action [OF Cons.prems, of a] Cons.IH show ?case
    by (auto split: prod.split option.split)
qed

lemma shows_reports_closing: "shows_reports env f \<Longrightarrow> shows_reports env (f\<lparr>mf_closing := b\<rparr>)"
  by (rule shows_reports_same) (simp_all add: shown_text_def)

lemma shows_reports_step:
  assumes "app_step env base em a a'" and "shows_reports env (ma_frame a)"
  shows "shows_reports env (ma_frame a')"
  using assms
proof (cases rule: app_step.cases)
  case (typing str)
  then show ?thesis by (auto intro!: shows_reports_same [OF assms(2)] simp: shown_text_def)
next
  case (event evt r)
  from shows_reports_actions [OF assms(2)] have "shows_reports env (fst (frame_OnEnter env (ma_frame a)))"
    by (simp add: frame_OnEnter_def)
  with event assms(2) show ?thesis
    by (auto simp: ProcessEvent_def handle_exception_def intro!: shows_reports_closing
        split: if_splits prod.splits option.splits failure.splits sum.splits)
next
  case (paint str rest)
  then show ?thesis
    by (auto intro!: shows_reports_same [OF assms(2)] simp: shown_text_def OnPrintMessage_def text_line_def)
next
  case quit
  with assms(2) show ?thesis by (simp add: OnQuit_def shows_reports_closing)
next
  case (network i c ts m)
  from complete_op_signals [OF network(5)]
  have "node_extends (mf_node (ma_frame a)) ((mf_node (ma_frame a))\<lparr>cn_machine := m\<rparr>)"
    by (simp add: node_extends_def)
  from shows_reports_node [OF assms(2) this] network(1) show ?thesis by simp
qed

text \<open>Runs of the application from its start.\<close>

inductive app_reachable ::
  "gui_env \<Rightarrow> (wx_event \<Rightarrow> thrown + bool) \<Rightarrow> (error_code \<Rightarrow> string) \<Rightarrow> main_app \<Rightarrow> bool"
  for env base em where
  launched: "OnInit None = (Some f, errs, True) \<Longrightarrow> app_reachable env base em \<lparr>ma_frame = f, ma_cerr = errs\<rparr>"
| stepped: "app_reachable env base em a \<Longrightarrow> app_step env base em a a' \<Longrightarrow> app_reachable env base em a'"

lemma shows_reports_ctor: "shows_reports env main_frame_ctor"
proof -
  have "mf_pending main_frame_ctor = []" "tc_value (text_display_box main_frame_ctor) = ''''"
      "cm_signals (cn_machine (mf_node main_frame_ctor)) = []"
    by (simp_all add: main_frame_ctor_def bind_slot_def frame_base_def createMenuBar_def createTextBoxes_def
        client_node_ctor_def connectRcvMessage_def connectConnectionStatusReport_def connectSendReport_def Let_def
        initiate_simps)
  then show ?thesis using wired_ctor by (auto simp: shows_reports_def shown_text_def intro!: exI [of _ "[]"])
qed

lemma app_shows_reports: "app_reachable env base em a \<Longrightarrow> shows_reports env (ma_frame a)"
proof (induction rule: app_reachable.induct)
  case (launched f errs)
  then show ?case by (simp add: OnInit_def shows_reports_ctor)
next
  case (stepped a a')
  then show ?case by (blast intro: shows_reports_step)
qed

section \<open>A line is typed\<close>

text \<open>The message the client node makes of a line.\<close>

definition typed_message :: "gui_env \<Rightarrow> client_node \<Rightarrow> string \<Rightarrow> near_user_message" where
  "typed_message env cn text = \<lparr>num_msg_id = cn_last_msg_id cn + 1, num_recipient = user_id_none,
     num_sender = user_id_none, num_stringwrap = \<lparr>sw_message_string = wxString2str (ge_to_utf8 env) text\<rparr>\<rparr>"

definition press_return :: "gui_env \<Rightarrow> (wx_event \<Rightarrow> thrown + bool) \<Rightarrow> main_app \<Rightarrow> (main_app \<times> bool option) result" where
  "press_return env base = ProcessEvent env base (CharEvent WXK_RETURN False False)"

definition has_typed :: "main_app \<Rightarrow> string \<Rightarrow> main_app" where
  "has_typed a text = a\<lparr>ma_frame := (ma_frame a)\<lparr>text_input_box := (text_input_box (ma_frame a))\<lparr>tc_value := text\<rparr>\<rparr>\<rparr>"

lemma app_typing: "app_step env base em a (has_typed a text)"
  unfolding has_typed_def by (rule app_step.typing)

lemma send_typed:
  "gui_perform tokenize (ge_host env) (ge_ts env) (GuiSend (wxString2str (ge_to_utf8 env) text)) cn =
   rbind (process_event (ge_host env) (ge_ts env) (EvtSendMsg (typed_message env cn text)) (cn_machine cn)) (\<lambda>m.
   Inr (cn\<lparr>cn_last_msg_id := cn_last_msg_id cn + 1, cn_machine := m\<rparr>))"
  by (simp add: client_node_defs Let_def typed_message_def user_id_none_def)

lemma line_is_sent:
  assumes "wired (ma_frame a)" and "\<not> mf_terminated (ma_frame a)" and "text \<noteq> []" and "hd text \<noteq> CHR ''/''"
  defines "cn \<equiv> mf_node (ma_frame a)"
  assumes "event_ok (cm_state (cn_machine cn)) (EvtSendMsg (typed_message env cn text))"
  shows "\<exists>a' m sigs. press_return env base (has_typed a text) = Inr (a', Some True) \<and>
     process_event (ge_host env) (ge_ts env) (EvtSendMsg (typed_message env cn text)) (cn_machine cn) = Inr m \<and>
     cm_signals m = cm_signals (cn_machine cn) @ sigs \<and>
     a' = a\<lparr>ma_frame := (ma_frame a)\<lparr>
       text_input_box := (text_input_box (ma_frame a))\<lparr>tc_value := ''''\<rparr>,
       mf_node := cn\<lparr>cn_last_msg_id := cn_last_msg_id cn + 1, cn_machine := m\<rparr>,
       mf_pending := mf_pending (ma_frame a) @ [''<< '' @ text] @ concat (map (report_lines (ge_from_utf8 env)) sigs)\<rparr>\<rparr>"
proof -
  from process_event_effect [OF assms(6), of "ge_host env" "ge_ts env"] obtain m sigs where
      m: "process_event (ge_host env) (ge_ts env) (EvtSendMsg (typed_message env cn text)) (cn_machine cn) = Inr m"
        "cm_signals m = cm_signals (cn_machine cn) @ sigs"
    by (auto simp: evolves_def)
  let ?f = "printMessage (''<< '' @ text) ((ma_frame a)\<lparr>text_input_box := (text_input_box (ma_frame a))\<lparr>tc_value := ''''\<rparr>\<rparr>)"
  let ?cn = "cn\<lparr>cn_last_msg_id := cn_last_msg_id cn + 1, cn_machine := m\<rparr>"
  have node: "mf_node ?f = cn" "\<not> mf_terminated ?f" using assms(2) by (simp_all add: printMessage_def cn_def)
  have w: "wired ?f" "wired (?f\<lparr>mf_node := ?cn\<rparr>)"
    using assms(1) by (simp_all add: printMessage_def wired_def cn_def)
  have "call_node env (GuiSend (wxString2str (ge_to_utf8 env) text)) ?f = Inr ?cn"
    using m(1) node by (simp add: call_node_def send_typed del: gui_perform.simps)
  moreover have "node_becomes env ?cn ?f = ?f\<lparr>mf_node := ?cn,
      mf_pending := mf_pending ?f @ concat (map (report_lines (ge_from_utf8 env)) sigs)\<rparr>"
    by (rule node_becomes_wired [OF w]) (use m(2) in \<open>simp add: printMessage_def cn_def\<close>)
  ultimately have "node_action env (GuiSend (wxString2str (ge_to_utf8 env) text)) ?f =
      (?f\<lparr>mf_node := ?cn, mf_pending := mf_pending ?f @ concat (map (report_lines (ge_from_utf8 env)) sigs)\<rparr>, None)"
    by (simp add: node_action_def)
  then have "frame_OnEnter env (ma_frame (has_typed a text)) =
      (?f\<lparr>mf_node := ?cn, mf_pending := mf_pending ?f @ concat (map (report_lines (ge_from_utf8 env)) sigs)\<rparr>, None)"
    using assms(3,4) by (simp add: frame_OnEnter_def has_typed_def OnEnter_def isCommand_def hd_conv_nth)
  with m show ?thesis
    by (simp add: press_return_def ProcessEvent_def has_typed_def printMessage_def)
qed

section \<open>The reports and the window\<close>

text \<open>
  C13. Nothing the client reports is lost on the way to the user.  In every run of
  the application, whatever the user types, the network does and the event loop
  handles in between, the text of the window continued by the queued print
  events is a sequence of lines that contains the lines of all reports the
  client ever emitted (messages received, changes of the connection, messages
  not sent), in the order in which it emitted them.
\<close>

theorem reports_are_displayed:
  assumes "app_reachable env base em a"
  shows "\<exists>lines. tc_value (text_display_box (ma_frame a)) @ concat (map text_line (mf_pending (ma_frame a))) =
       concat (map text_line lines) \<and>
     subseq (concat (map (report_lines (ge_from_utf8 env)) (cm_signals (cn_machine (mf_node (ma_frame a)))))) lines"
  using app_shows_reports [OF assms] by (simp add: shows_reports_def shown_text_def)

definition demo_env :: gui_env where
  "demo_env = \<lparr>ge_tokenize = char_separator_tokens, ge_narrow = id, ge_to_utf8 = bytes_of_string,
     ge_from_utf8 = latin_text, ge_host = LittleEndian, ge_ts = ThreadStarted\<rparr>"

lemma reports_are_displayed_witness:
  "\<exists>a lines. app_reachable demo_env (\<lambda>_. Inr False) demo_em a \<and>
     tc_value (text_display_box (ma_frame a)) @ concat (map text_line (mf_pending (ma_frame a))) =
       concat (map text_line lines) \<and>
     subseq [''*  Failed to send message: Not Connected.''] lines"
proof -
  let ?base = "\<lambda>_. Inr False :: thrown + bool"
  let ?a = "\<lparr>ma_frame = main_frame_ctor, ma_cerr = []\<rparr>"
  have 1: "app_reachable demo_env ?base demo_em ?a"
    by (rule app_reachable.launched) (simp add: OnInit_def)
  have f: "\<not> mf_terminated main_frame_ctor" "cm_state (cn_machine (mf_node main_frame_ctor)) = StateWaiting"
      "cm_signals (cn_machine (mf_node main_frame_ctor)) = []"
    by (simp_all add: main_frame_ctor_def bind_slot_def frame_base_def createMenuBar_def createTextBoxes_def
        client_node_ctor_def connectRcvMessage_def connectConnectionStatusReport_def connectSendReport_def Let_def
        initiate_simps)
  let ?msg = "typed_message demo_env (mf_node main_frame_ctor) ''hi''"
  from line_is_sent [of ?a "''hi''" demo_env ?base] f wired_ctor obtain a' m where
      a': "press_return demo_env ?base (has_typed ?a ''hi'') = Inr (a', Some True)"
        "process_event LittleEndian ThreadStarted (EvtSendMsg ?msg) (cn_machine (mf_node main_frame_ctor)) = Inr m"
        "cn_machine (mf_node (ma_frame a')) = m"
    by (auto simp: demo_env_def)
  from process_event_effect [of "cn_machine (mf_node main_frame_ctor)" "EvtSendMsg ?msg" LittleEndian ThreadStarted] f(2,3) a'(2)
  have sig: "cm_signals m = [not_sent_rprt ''Not Connected.'']" by (auto simp: evolves_def)
  have 2: "app_reachable demo_env ?base demo_em a'"
    using app_reachable.stepped [OF app_reachable.stepped [OF 1 app_typing] app_step.event]
      a'(1) [unfolded press_return_def] by blast
  have "report_lines latin_text (not_sent_rprt ''Not Connected.'') = [''*  Failed to send message: Not Connected.'']"
    using latin_text_bytes [of "''Not Connected.''"]
    by (simp add: report_lines_def not_sent_rprt_def slotSendReport_def str2wxString_def c_str_def bytes_of_string_def)
  with reports_are_displayed [OF 2] 2 sig a'(3) show ?thesis by (auto simp: demo_env_def)
qed

section \<open>What the application object returns\<close>

definition is_enter_key :: "wx_event \<Rightarrow> bool" where
  "is_enter_key event = (case event of
     CharEvent key control shift \<Rightarrow> key = WXK_RETURN \<and> \<not> control \<and> \<not> shift | OtherEvent \<Rightarrow> False)"

text \<open>The line in the input box is a message that no vector can hold.\<close>

definition too_long :: "gui_env \<Rightarrow> main_frame \<Rightarrow> bool" where
  "too_long env f \<longleftrightarrow>
     (let line = tc_value (text_input_box f) in
      line \<noteq> [] \<and> \<not> isCommand line \<and> \<not> mf_terminated f \<and> cm_state (cn_machine (mf_node f)) = StateConnected \<and>
      vector_max_size < num_size (typed_message env (mf_node f) line) + 4)"

lemma request_performed:
  assumes "\<nexists>msg. a = GuiSend msg"
  shows "\<exists>cn'. gui_perform tokenize host ts a cn = Inr cn'"
proof -
  have e: "\<exists>m'. process_event host ts (EvtConnectRequest h s) m = Inr m'"
    "\<exists>m'. process_event host ts EvtDisconnectRequest m = Inr m'" for h s m
    using process_event_effect [of m "EvtConnectRequest h s" host ts] process_event_effect [of m EvtDisconnectRequest host ts]
    by (cases "cm_state m"; simp; blast)+
  show ?thesis
  proof (cases a)
    case (GuiConnectTo loc)
    obtain ok h s where p: "parseDestinationString tokenize '''' '''' (where_string loc) = (ok, h, s)"
      by (cases "parseDestinationString tokenize '''' '''' (where_string loc)")
    from e(1) [of h s "cn_machine cn"] obtain m' where
        "process_event host ts (EvtConnectRequest h s) (cn_machine cn) = Inr m'" by blast
    with p GuiConnectTo show ?thesis by (simp add: connectTo_def with_machine_def Let_def)
  next
    case GuiDisconnect
    from e(2) [of "cn_machine cn"] GuiDisconnect show ?thesis by (auto simp: disconnect_def with_machine_def)
  qed (use assms in auto)
qed

lemma call_node_succeeds: "\<nexists>msg. a = GuiSend msg \<Longrightarrow> \<exists>cn'. call_node env a f = Inr cn'"
  using request_performed [of a "ge_tokenize env" "ge_host env" "ge_ts env" "mf_node f"]
    request_performed [of _ "ge_tokenize env" "ge_host env" "ge_ts env" "mf_node f"]
  by (cases a) (auto simp: call_node_def Let_def)

lemma perform_action_succeeds:
  assumes "\<nexists>msg. a = GuiSend msg"
  shows "snd (perform_action env a f) = None"
  using call_node_succeeds [OF assms, of env f] by (cases a) (auto simp: node_action_def)

lemma perform_actions_succeed:
  "\<forall>a \<in> set as. \<nexists>msg. a = GuiSend msg \<Longrightarrow> snd (perform_actions env as f) = None"
proof (induction as arbitrary: f)
  case Nil
  then show ?case by simp
next
  case (Cons a as)
  then have "snd (perform_action env a f) = None" by (intro perform_action_succeeds) simp
  with Cons show ?case by (cases "perform_action env a f") simp
qed

lemma OnEnter_result:
  "snd (frame_OnEnter env f) = (if too_long env f then Some (Throw LengthError) else None)"
proof -
  let ?line = "tc_value (text_input_box f)"
  let ?actions = "OnEnter (ge_tokenize env) (ge_narrow env) (ge_to_utf8 env) ?line"
  show ?thesis
  proof (cases "?line \<noteq> [] \<and> \<not> isCommand ?line")
    case False
    have "\<forall>a \<in> set (parseCommand (ge_tokenize env) (ge_narrow env) ?line). \<nexists>msg. a = GuiSend msg"
      by (simp add: parseCommand_def invalid_command_def split: list.split)
    with False have "\<forall>a \<in> set ?actions. \<nexists>msg. a = GuiSend msg"
      by (auto simp: OnEnter_def)
    moreover have "\<not> too_long env f" using False by (auto simp: too_long_def Let_def)
    ultimately show ?thesis using perform_actions_succeed by (simp add: frame_OnEnter_def)
  next
    case True
    define g where "g = printMessage (''<< '' @ ?line) (f\<lparr>text_input_box := (text_input_box f)\<lparr>tc_value := ''''\<rparr>\<rparr>)"
    let ?send = "GuiSend (wxString2str (ge_to_utf8 env) ?line)" and ?msg = "typed_message env (mf_node f) ?line"
    have node: "mf_node g = mf_node f" "mf_terminated g = mf_terminated f" by (simp_all add: g_def printMessage_def)
    have "snd (frame_OnEnter env f) = snd (node_action env ?send g)"
      using True by (cases "node_action env ?send g")
        (auto simp: frame_OnEnter_def OnEnter_def g_def split: option.split)
    also have "\<dots> = (case call_node env ?send g of Inl failed \<Rightarrow> Some failed | Inr cn \<Rightarrow> None)"
      by (simp add: node_action_def split: sum.split)
    also have "\<dots> = (if too_long env f then Some (Throw LengthError) else None)"
    proof (cases "mf_terminated f")
      case True
      then show ?thesis by (simp add: call_node_def node too_long_def Let_def)
    next
      case False
      show ?thesis
      proof (cases "event_ok (cm_state (cn_machine (mf_node f))) (EvtSendMsg ?msg)")
        case ok: True
        then have "\<not> too_long env f" using True by (auto simp: too_long_def Let_def)
        with process_event_effect [OF ok, of "ge_host env" "ge_ts env"] False show ?thesis
          by (auto simp: call_node_def node send_typed Let_def simp del: gui_perform.simps)
      next
        case bad: False
        then have "cm_state (cn_machine (mf_node f)) = StateConnected" "vector_max_size < num_size ?msg + 4"
          by (cases "cm_state (cn_machine (mf_node f))"; simp)+
        with True False have "too_long env f" by (auto simp: too_long_def Let_def)
        with process_event_fails [OF _ bad, of "ge_host env" "ge_ts env"] False show ?thesis
          by (simp add: call_node_def node send_typed Let_def del: gui_perform.simps)
      qed
    qed
    finally show ?thesis .
  qed
qed

text \<open>
  C35. The application object survives every event: its handler returns, the Return
  key always counts as handled, and an exception, which only an unsendable line
  or the toolkit can cause, is reported on the error stream and closes the window.
  The value it returns then is that of a variable that was never set.
\<close>

theorem event_results:
  "\<exists>a' r. ProcessEvent env base evt a = Inr (a', r) \<and>
     (r = None \<longleftrightarrow> (if is_enter_key evt then too_long env (ma_frame a) else (\<exists>e. base evt = Inl e))) \<and>
     (if r = None then mf_closing (ma_frame a') \<and> length (ma_cerr a') = Suc (length (ma_cerr a))
      else ma_cerr a' = ma_cerr a \<and> (if is_enter_key evt then r = Some True else a' = a \<and> base evt = Inr (the r)))"
proof (cases "is_enter_key evt")
  case True
  then have run: "ProcessEvent env base evt a = (case frame_OnEnter env (ma_frame a) of
      (f, None) \<Rightarrow> Inr (a\<lparr>ma_frame := f\<rparr>, Some True)
    | (f, Some (Throw e)) \<Rightarrow> Inr (handle_exception (StdException (exn_what e)) (a\<lparr>ma_frame := f\<rparr>), None)
    | (f, Some (Undefined u)) \<Rightarrow> Inl (Undefined u))"
    by (simp add: ProcessEvent_def is_enter_key_def)
  obtain f r where f: "frame_OnEnter env (ma_frame a) = (f, r)" by fastforce
  with OnEnter_result [of env "ma_frame a"] have "r = (if too_long env (ma_frame a) then Some (Throw LengthError) else None)"
    by simp
  with run f True show ?thesis by (cases "too_long env (ma_frame a)") (auto simp: handle_exception_def)
next
  case False
  then have "ProcessEvent env base evt a = (case base evt of
      Inr baseclass_result \<Rightarrow> Inr (a, Some baseclass_result) | Inl e \<Rightarrow> Inr (handle_exception e a, None))"
    by (simp add: ProcessEvent_def is_enter_key_def)
  with False show ?thesis by (cases "base evt") (auto simp: handle_exception_def)
qed

end
