(* ===== verification/Chat.thy ===== *)
theory Chat
  imports GuiApp Conversation
begin

text \<open>
  The program as its users see it: lines typed into one window, through the
  client node, the server and the network, to the text of another window.
\<close>

section \<open>Typing\<close>

abbreviation app_steps ::
  "gui_env \<Rightarrow> (wx_event \<Rightarrow> thrown + bool) \<Rightarrow> (error_code \<Rightarrow> string) \<Rightarrow> main_app \<Rightarrow> main_app \<Rightarrow> bool" where
  "app_steps env base em \<equiv> (app_step env base em)\<^sup>*\<^sup>*"

definition app_machine :: "main_app \<Rightarrow> clientnode_machine" where
  "app_machine a = cn_machine (mf_node (ma_frame a))"

text \<open>An application whose window is wired to its client, and whose client is connected.\<close>

definition app_connected :: "main_app \<Rightarrow> bool" where
  "app_connected a \<longleftrightarrow> wired (ma_frame a) \<and> \<not> mf_terminated (ma_frame a) \<and> cm_state (app_machine a) = StateConnected"

text \<open>A line that is no command and survives the conversions.\<close>

definition plain_line :: "gui_env \<Rightarrow> string \<Rightarrow> bool" where
  "plain_line env text \<longleftrightarrow> text \<noteq> [] \<and> hd text \<noteq> CHR ''/'' \<and> 0 \<notin> set (ge_to_utf8 env text) \<and>
     length (ge_to_utf8 env text) + 25 \<le> 0x8FFF"

lemma typed_message_size:
  assumes "plain_line env text"
  shows "sw_message_string (num_stringwrap (typed_message env cn text)) = ge_to_utf8 env text"
    and "num_size (typed_message env cn text) + 4 \<le> 0x8FFF"
proof -
  have "c_str (ge_to_utf8 env text) = ge_to_utf8 env text"
    unfolding c_str_def takeWhile_eq_all_conv using assms unfolding plain_line_def by metis
  then show s: "sw_message_string (num_stringwrap (typed_message env cn text)) = ge_to_utf8 env text"
    by (simp add: typed_message_def wxString2str_def)
  have "num_size (typed_message env cn text) + 4 = length (ge_to_utf8 env text) + 25"
    using s by (simp add: num_size_def sw_size_def char_size_def)
  then show "num_size (typed_message env cn text) + 4 \<le> 0x8FFF"
    using assms by (simp only: plain_line_def)
qed

text \<open>Lines that are typed become packets, in order, and nothing else happens to the client.\<close>

lemma lines_are_sent:
  assumes "app_connected a" and "list_all (plain_line env) texts"
  shows "\<exists>a' msgs. app_steps env base em a a' \<and> app_connected a' \<and>
     cm_pending (app_machine a') = cm_pending (app_machine a) @ map OpWrite (map (segm_wire num_wire) msgs) \<and>
     map (\<lambda>msg. sw_message_string (num_stringwrap msg)) msgs = map (ge_to_utf8 env) texts \<and>
     (\<forall>msg \<in> set msgs. num_size msg + 4 \<le> 0x8FFF)"
  using assms
proof (induction texts arbitrary: a)
  case Nil
  then show ?case by (intro exI [of _ a] exI [of _ "[]"]) simp
next
  case (Cons line texts)
  let ?cn = "mf_node (ma_frame a)"
  let ?msg = "typed_message env ?cn line"
  from Cons.prems(2) have plain: "plain_line env line" by simp
  note size = typed_message_size [OF this, of ?cn]
  have conn: "wired (ma_frame a)" "\<not> mf_terminated (ma_frame a)" "cm_state (cn_machine ?cn) = StateConnected"
    using Cons.prems(1) by (simp_all add: app_connected_def app_machine_def)
  have ok: "event_ok (cm_state (cn_machine ?cn)) (EvtSendMsg ?msg)"
    using size(2) by (simp add: conn(3) vector_max_size_def)
  from line_is_sent [OF conn(1,2) _ _ ok, of base] plain obtain a1 m sigs where
      a1: "press_return env base (has_typed a line) = Inr (a1, Some True)"
        "process_event (ge_host env) (ge_ts env) (EvtSendMsg ?msg) (cn_machine ?cn) = Inr m"
        "a1 = a\<lparr>ma_frame := (ma_frame a)\<lparr>
       text_input_box := (text_input_box (ma_frame a))\<lparr>tc_value := ''''\<rparr>,
       mf_node := ?cn\<lparr>cn_last_msg_id := cn_last_msg_id ?cn + 1, cn_machine := m\<rparr>,
       mf_pending := mf_pending (ma_frame a) @ [''<< '' @ line] @ concat (map (report_lines (ge_from_utf8 env)) sigs)\<rparr>\<rparr>"
    by (auto simp: plain_line_def)
  from process_event_effect [OF ok, of "ge_host env" "ge_ts env"] a1(2) conn(3)
  have m: "cm_state m = StateConnected" "cm_pending m = cm_pending (cn_machine ?cn) @ [OpWrite (segm_wire num_wire ?msg)]"
    by (auto simp: evolves_def)
  have "app_connected a1"
    using conn m(1) by (simp add: a1(3) app_connected_def app_machine_def wired_def)
  from Cons.IH [OF this] Cons.prems(2) obtain a' msgs where
      a': "app_steps env base em a1 a'" "app_connected a'"
        "cm_pending (app_machine a') = cm_pending (app_machine a1) @ map OpWrite (map (segm_wire num_wire) msgs)"
        "map (\<lambda>msg. sw_message_string (num_stringwrap msg)) msgs = map (ge_to_utf8 env) texts"
        "\<forall>msg \<in> set msgs. num_size msg + 4 \<le> 0x8FFF"
    by auto
  have "app_steps env base em a a1"
    using app_typing [of env base em a line] app_step.event [OF a1(1) [unfolded press_return_def], of em]
    by (meson rtranclp.rtrancl_into_rtrancl rtranclp.rtrancl_refl)
  from this a'(1) have "app_steps env base em a a'" by (rule rtranclp_trans)
  moreover have "cm_pending (app_machine a1) = cm_pending (app_machine a) @ [OpWrite (segm_wire num_wire ?msg)]"
    using m(2) by (simp add: a1(3) app_machine_def)
  ultimately show ?case
    using a' size by (intro exI [of _ a'] exI [of _ "?msg # msgs"]) simp
qed

section \<open>Reading\<close>

text \<open>The bytes of a stream reach the window through the handlers of the client.\<close>

lemma wanted_read:
  assumes "cm_want m = Some n" and "length data = n"
  shows "first_index is_stream_read (cm_pending m) < length (cm_pending m)"
    and "completes (cm_pending m ! first_index is_stream_read (cm_pending m)) (ReadDone Success n data)"
proof -
  let ?k = "first_index is_stream_read (cm_pending m)"
  from assms(1) show k: "?k < length (cm_pending m)"
    by (auto simp: cm_want_def Let_def split: if_splits)
  from nth_length_takeWhile [of "\<lambda>op. \<not> is_stream_read op" "cm_pending m"] k
  have "is_stream_read (cm_pending m ! ?k)" by (simp add: first_index_def)
  moreover from assms(1) k have "stream_read_size (cm_pending m ! ?k) = n" by (simp add: cm_want_def Let_def)
  ultimately show "completes (cm_pending m ! ?k) (ReadDone Success n data)"
    using assms(2) by (cases "cm_pending m ! ?k") (simp_all add: segm_header_length_def)
qed

lemma stream_reaches_window:
  assumes "feeds cm_want (cm_arrive (ge_host env) em ts) bs m r rest"
  shows "r = Inr m' \<Longrightarrow> app_machine a = m \<Longrightarrow> wired (ma_frame a) \<Longrightarrow> \<not> mf_terminated (ma_frame a) \<Longrightarrow>
     \<exists>a' sigs. app_steps env base em a a' \<and> app_machine a' = m' \<and> wired (ma_frame a') \<and>
       cm_signals m' = cm_signals m @ sigs \<and>
       shown_text (ma_frame a') =
         shown_text (ma_frame a) @ concat (map text_line (concat (map (report_lines (ge_from_utf8 env)) sigs)))"
  using assms
proof (induction arbitrary: a rule: feeds.induct)
  case (feeds_stop s bs)
  then show ?case by (intro exI [of _ a] exI [of _ "[]"]) simp
next
  case (feeds_read s n bs s1 r rest)
  let ?k = "first_index is_stream_read (cm_pending s)"
  have "length (take n bs) = n" using feeds_read.hyps(2) by simp
  note w = wanted_read [OF feeds_read.hyps(1) this]
  have run: "complete_op (ge_host env) em ts ?k (ReadDone Success n (take n bs)) s = Inr s1"
    using feeds_read.hyps(3) \<open>length (take n bs) = n\<close> by (simp only: cm_arrive_def)
  let ?cn = "(mf_node (ma_frame a))\<lparr>cn_machine := s1\<rparr>"
  let ?a = "a\<lparr>ma_frame := node_becomes env ?cn (ma_frame a)\<rparr>"
  have node: "cn_machine (mf_node (ma_frame a)) = s" using feeds_read.prems(2) by (simp add: app_machine_def)
  have step: "app_step env base em a ?a"
    using app_step.network [of a ?k "ReadDone Success n (take n bs)" env em ts s1] w run node feeds_read.prems(4)
    by simp
  from complete_op_signals [OF run] obtain sigs where sigs: "cm_signals s1 = cm_signals s @ sigs" ..
  have f: "node_becomes env ?cn (ma_frame a) = (ma_frame a)\<lparr>mf_node := ?cn,
      mf_pending := mf_pending (ma_frame a) @ concat (map (report_lines (ge_from_utf8 env)) sigs)\<rparr>"
    by (rule node_becomes_wired) (use feeds_read.prems(3) sigs node in \<open>simp_all add: wired_def\<close>)
  have "app_machine ?a = s1" "wired (ma_frame ?a)" "\<not> mf_terminated (ma_frame ?a)"
    using feeds_read.prems(3,4) by (simp_all add: f app_machine_def wired_def)
  from feeds_read.IH [OF feeds_read.prems(1) this] obtain a' sigs' where
      a': "app_steps env base em ?a a'" "app_machine a' = m'" "wired (ma_frame a')"
        "cm_signals m' = cm_signals s1 @ sigs'"
        "shown_text (ma_frame a') =
          shown_text (ma_frame ?a) @ concat (map text_line (concat (map (report_lines (ge_from_utf8 env)) sigs')))"
    by blast
  have "shown_text (ma_frame ?a) =
      shown_text (ma_frame a) @ concat (map text_line (concat (map (report_lines (ge_from_utf8 env)) sigs)))"
    by (simp add: f shown_text_def)
  moreover have "app_steps env base em a a'" using step a'(1) by (rule converse_rtranclp_into_rtranclp)
  ultimately show ?case
    using a' sigs by (intro exI [of _ a'] exI [of _ "sigs @ sigs'"]) simp
next
  case (feeds_fail s n bs f)
  then show ?case by simp
qed

text \<open>The event loop handles what is queued.\<close>

lemma all_is_painted:
  "\<exists>a'. app_steps env base em a a' \<and> mf_pending (ma_frame a') = [] \<and>
     tc_value (text_display_box (ma_frame a')) = shown_text (ma_frame a) \<and>
     app_machine a' = app_machine a"
proof (induction "mf_pending (ma_frame a)" arbitrary: a)
  case Nil
  then show ?case by (intro exI [of _ a]) (simp add: shown_text_def)
next
  case (Cons str rest)
  let ?a = "a\<lparr>ma_frame := OnPrintMessage str ((ma_frame a)\<lparr>mf_pending := rest\<rparr>)\<rparr>"
  have "app_step env base em a ?a" by (rule app_step.paint) (simp add: Cons.hyps(2) [symmetric])
  moreover have "rest = mf_pending (ma_frame ?a)" by (simp add: OnPrintMessage_def)
  from Cons.hyps(1) [OF this] obtain a' where a': "app_steps env base em ?a a'" "mf_pending (ma_frame a') = []"
      "tc_value (text_display_box (ma_frame a')) = shown_text (ma_frame ?a)" "app_machine a' = app_machine ?a"
    by blast
  moreover have "shown_text (ma_frame ?a) = shown_text (ma_frame a)"
    by (simp add: shown_text_def OnPrintMessage_def text_line_def Cons.hyps(2) [symmetric])
  moreover have "app_machine ?a = app_machine a" by (simp add: app_machine_def OnPrintMessage_def)
  ultimately show ?case by (intro exI [of _ a']) (auto intro: converse_rtranclp_into_rtranclp)
qed

section \<open>A chat\<close>

lemma message_line:
  assumes "c_str bytes = bytes" and "sw_message_string (num_stringwrap msg) = bytes"
  shows "report_lines from_utf8 (RcvMessage msg) = [''>> '' @ from_utf8 bytes]"
  using assms by (simp add: report_lines_def slotReceiveMessage_def)

lemma plain_c_str: "plain_line env line \<Longrightarrow> c_str (ge_to_utf8 env line) = ge_to_utf8 env line"
  unfolding c_str_def takeWhile_eq_all_conv plain_line_def by metis


definition demo_app :: "async_op list \<Rightarrow> main_app" where
  "demo_app ops = \<lparr>ma_frame = main_frame_ctor\<lparr>mf_node := (mf_node main_frame_ctor)\<lparr>
     cn_machine := demo_machine StateConnected ops\<rparr>\<rparr>, ma_cerr = []\<rparr>"

lemma demo_app_facts:
  "app_connected (demo_app ops)" "app_machine (demo_app ops) = demo_machine StateConnected ops"
  "shown_text (ma_frame (demo_app ops)) = ''''"
  by (simp_all add: app_connected_def app_machine_def demo_app_def wired_def shown_text_def main_frame_ctor_def
      bind_slot_def frame_base_def createMenuBar_def createTextBoxes_def client_node_ctor_def connectRcvMessage_def
      connectConnectionStatusReport_def connectSendReport_def Let_def)


end
