(* ===== verification/Spec2Isabelle.thy ===== *)
theory Spec2Isabelle
  imports WireProps ClientRecovery NodeDestruction TestSuite ServerMain WriteOverlap Chat
begin

text \<open>
  Nuke-MS: a verification library.

  The repository is a chat system in C++.  A server (\<open>src/server\<close>) accepts
  TCP connections and relays every message it receives to all connected peers.
  A client node (\<open>src/clientnode\<close>) is a state machine between the application
  and the network; the wxWidgets window (\<open>src/client-wx\<close>) is its application.  A
  second server side (\<open>src/servnode\<close>) has the connection of one client
  as an object of its own.  All of them exchange packets: a segmentation header
  (identifier, 16 bit size, zero byte) in front of a user message (identifier,
  message number, recipient, sender, text), converted to a fixed byte order
  (\<open>include/bytes.hpp\<close>, \<open>msglayer.hpp\<close>, \<open>neartypes.hpp\<close>).

  How the parts interact.  The application calls \<open>ClientNode\<close>, which posts an
  event to the machine; the machine serialises messages into packets and starts
  asynchronous operations whose handlers post further events; its reports
  reach the application by signals.  The network gives the bytes of a write to
  the server, where a \<open>RemotePeer\<close> reads header and body and calls back the
  \<open>DispatchingServer\<close>, which sends the packet through every \<open>RemotePeer\<close>.
  Machines and peers are kept alive by counted references in their handlers.

  Theories, in the order of their imports.

  Prelude: exceptions, undefined behaviour as values, the sequencing of
  fallible operations, byte iterators with bounds, the vector constructor.

  Bytes (\<open>bytes.hpp\<close>): \<open>reversebytes\<close> and its specialisations, \<open>to_netbo\<close>,
  \<open>to_hostbo\<close>, \<open>writebytes\<close>, \<open>readbytes\<close>.  The lemmas show that the specialisations
  agree with the template and that the bytes on the wire do not depend on the
  host.

  MsgLayer (\<open>msglayer.hpp\<close>, \<open>msglayer.cpp\<close>): \<open>SerializedData\<close>,
  \<open>SegmentationLayer\<close>, \<open>StringwrapLayer\<close>.  The locale \<open>message_layer\<close> is the
  interface \<open>BasicMessageLayer\<close>; the facts of the segmentation layer are proved in
  it and used through its interpretations for raw data, strings and user
  messages.  NearTypes (\<open>neartypes.hpp\<close>, \<open>neartypes.cpp\<close>): user identifiers,
  \<open>NearUserMessage\<close>, its parser on every branch.

  RefCounter (\<open>refcounter.hpp\<close>): \<open>ReferenceCounter\<close> and \<open>CountedReference\<close>, with the
  locale \<open>ref_counting\<close>: the count is the number of references and the action
  runs when the last one dies, for less than \<open>2 ^ 32\<close> references.

  WireProps: the properties of the four theories above.

  Framing: the verdict on a packet header, the reference parser \<open>frames\<close> that cuts a
  byte stream into packets, and the locale \<open>packet_reader\<close>: the contract of a
  component that reads header and body in turn, under which it finds exactly the
  packets of the parser in any stream.

  SigTypes (\<open>clientnode/sigtypes.hpp\<close>, \<open>logstreams.hpp\<close>): reports and signals.
  ClientMachine and ClientHandlers (\<open>clientnode/statemachine.hpp\<close>,
  \<open>statemachine.cpp\<close>): the states, events, reactions, entry actions, and the
  handlers of resolving, connecting, reading and writing; \<open>cm_step\<close> is one request
  of the application or one completion; the table \<open>cn_spec\<close> is the abstract
  specification.  ClientFacts: every event refines the table, and the invariants
  of reachable machines.  ClientNode (\<open>clientnode.hpp\<close>, \<open>clientnode.cpp\<close>): the
  facade, with the tokenizer of Boost as the locale \<open>separator_tokenizer\<close>.
  ClientProps: the properties of the client.  ClientLife: the ownership of header
  buffers, and handlers that outlive the connection attempt they belong to.
  ClientStream: the machine as a \<open>packet_reader\<close>.  ClientDrain: pending operations
  are well formed, so completions fail in one case only, and once operations only
  fail all handlers return.  ClientShutdown: the destructor and the thread of the
  service as interleaved steps on the mutex, the count, the condition and the stop
  flag, with what can go wrong between them.  ClientLocking: what calls and handlers
  lock, as lists of accesses that any number of threads interleave.  NodeDestruction:
  the members of \<open>ClientNode\<close> that are destroyed before the machine, and the handlers
  that still use them.  ClientRecovery: from any state the client can get connected
  again.

  Gui (\<open>client-wx/gui.cpp\<close>): commands, input and reports of the window as lists of
  actions.  GuiApp (\<open>gui.hpp\<close>, \<open>gui.cpp\<close>, \<open>client-wx/main.cpp\<close>): the window as a
  record with its widgets, its client node, its slots and its queue of print events;
  the application object and its exception handlers; \<open>app_step\<close> is one step of the
  running application (input, event loop, network).

  ServerStore (\<open>server/servevent.hpp\<close> and the data members), RemotePeer
  (\<open>remotepeer.cpp\<close>) and Dispatcher (\<open>dispatcher.cpp\<close>): the server.  Peers live in
  a store indexed by connection identifier, a \<open>std::map\<close> by the locale
  \<open>ordered_map\<close>; an operation on an erased peer is \<open>Undefined UseAfterFree\<close>.  What a
  peer relies on from its callback is the locale \<open>peer_callback\<close>, interpreted on
  \<open>handleServerEvent\<close>.  ServerSpec: a specification without peer objects, counts and
  buffers, and the refinement.  ServerInv: invariants of the specification,
  carried over to the reachable states of the server, and the properties.
  ServerStream: the server as a \<open>packet_reader\<close> of each peer.  ServerOrder: runs, and
  the one order in which all peers get what is relayed.  ServerDrain: lost peers are
  destroyed.  ServerMain (\<open>server/main.cpp\<close>): the constructor and its failure, \<open>run\<close>,
  the destructor, the exit.

  ConnectedClient (\<open>servnode/connected-client.cpp\<close>): weak pointers as the number
  of owners, the two callbacks as a parameter.  ConnectedStream: the connection as a
  \<open>packet_reader\<close> for an owner that stays.  TestSuite (\<open>src/test\<close>): the programs of the
  tests as functions of their data; their assertions hold for all data that fit (one
  for ASCII texts only), and the mock server is an owner that answers and shuts the
  connection down.

  Conversation: the messages of one client through the server to the applications
  of the others.  Chat: the lines of one window through all of this to the text of
  another.  WriteOverlap: the bytes of writes that are in progress on one socket at
  the same time, and what the receivers make of them.  This theory: a property of
  sender and receiver together.

  Bounds.  Packets are at most \<open>0x8FFF\<close> bytes for a receiver; the size field of
  the sender wraps at \<open>2 ^ 16\<close>.  A vector holds at most \<open>vector_max_size\<close> (\<open>2 ^ 63 - 1\<close>)
  bytes.  \<open>few_operations\<close> says that less than \<open>2 ^ 31\<close> operations are pending: each
  needs memory of its own, and the 32 bit reference counts cannot wrap then.
  Connection identifiers are the \<open>int\<close> of the code, whose overflow is a value of
  the model.  No fuel is used: the event queue ends because only a connection
  request can post an event (\<open>event_weight\<close>), the reading loop because each read
  advances.

  Environment.  Boost.Asio and Boost.Statechart are outside the repository.
  A started operation becomes pending; its completion (error code, data, order)
  is chosen by the environment within \<open>completes\<close>, \<open>completion_ok\<close> and \<open>cc_delivers\<close>,
  which state the documented guarantees of reads and writes.  The byte order of
  the machine, the text of error codes, the tokenizer, the conversions of
  wxWidgets and the outcome of creating or joining a thread are parameters.

  Not modelled: the effect on the data of the machine when threads interleave (outside
  ClientShutdown each handler and each request is one step; that the code does not
  lock them is shown in ClientLocking: they race), sockets below the level of
  operations and of the bytes of their writes, the drawing of widgets, the build of
  Boost.Asio (\<open>boostasio-impl\<close>, one include), and of the tests their output
  (\<open>byteprinter\<close>) and the accepting of connections.

  Plan.  All code of the repository that computes or keeps state is modelled; what
  can be added are further properties of the compositions.
\<close>

section \<open>Properties of the whole system\<close>

text \<open>
  C38. A message whose packet is larger than the receivers' limit, up to what the
  size field can hold, is sent without complaint and ends the connection of
  every client that receives its header.
\<close>

theorem oversized_message_ends_connection:
  assumes "0x8FFF < num_size msg + 4" and "num_size msg + 4 < 65536"
    and "cm_state a = StateConnected" and "cm_state b = StateConnected"
  shows "\<exists>packet a'. process_event host_a ts (EvtSendMsg msg) a = Inr a' \<and>
     cm_pending a' = cm_pending a @ [OpWrite packet] \<and> cm_signals a' = cm_signals a \<and>
     (\<exists>b'. receiveSegmentationHeaderHandler host_b em ts Success 4 (take 4 packet) b = Inr b' \<and>
        cm_state b' = StateWaiting \<and>
        cm_signals b' = cm_signals b @ [disconnected_rprt STCHR_SOCKET_CLOSED ''Oversized packet.''])"
proof -
  let ?packet = "segm_wire num_wire msg"
  have "event_ok (cm_state a) (EvtSendMsg msg)"
    using assms(2,3) by (simp add: vector_max_size_def)
  from process_event_effect [OF this, of host_a ts] assms(3) obtain a' where
      a': "process_event host_a ts (EvtSendMsg msg) a = Inr a'"
        "cm_pending a' = cm_pending a @ [OpWrite ?packet]" "cm_signals a' = cm_signals a"
    by (auto simp: evolves_def)
  have hdr: "take 4 ?packet = segm_header_bytes (word_of_nat (num_size msg + 4))"
    by (simp add: segm_wire_def segm_header_length_def length_num_wire)
  then have "header_verdict (take 4 ?packet) = Inl ''Oversized packet.''"
    using header_of_size(4) [OF assms(2)] assms(1) by simp
  moreover have "length (take 4 ?packet) = 4" by (simp add: length_segm_wire)
  ultimately have "\<exists>b'. receiveSegmentationHeaderHandler host_b em ts Success 4 (take 4 ?packet) b = Inr b' \<and>
        cm_state b' = StateWaiting \<and>
        cm_signals b' = cm_signals b @ [disconnected_rprt STCHR_SOCKET_CLOSED ''Oversized packet.'']"
    using header_handler_effect [OF assms(4), of "take 4 ?packet" host_b em ts] by auto
  with a' show ?thesis by blast
qed

lemma oversized_message_ends_connection_witness:
  "\<exists>packet a'. process_event LittleEndian ThreadStarted
       (EvtSendMsg (demo_message\<lparr>num_stringwrap := \<lparr>sw_message_string = replicate 40000 0x61\<rparr>\<rparr>))
       (demo_machine StateConnected []) = Inr a' \<and>
     cm_pending a' = [] @ [OpWrite packet] \<and> cm_signals a' = [] \<and>
     (\<exists>b'. receiveSegmentationHeaderHandler LittleEndian demo_em ThreadStarted Success 4 (take 4 packet)
          (demo_machine StateConnected []) = Inr b' \<and>
        cm_state b' = StateWaiting \<and>
        cm_signals b' = [] @ [disconnected_rprt STCHR_SOCKET_CLOSED ''Oversized packet.''])"
proof -
  let ?m = "demo_message\<lparr>num_stringwrap := \<lparr>sw_message_string = replicate 40000 0x61\<rparr>\<rparr>"
  have "num_size ?m = 40021" by (simp add: num_size_def sw_size_def char_size_def)
  with oversized_message_ends_connection [of ?m "demo_machine StateConnected []"
      "demo_machine StateConnected []" LittleEndian ThreadStarted LittleEndian demo_em]
  show ?thesis by simp
qed

end
